theory Spec2Isabelle
  imports Main
begin

section \<open>Strings\<close>

text \<open>
  A Go string is modelled by the sequence of runes (Unicode code points, Go's
  \<^verbatim>\<open>int32\<close>) that \<^verbatim>\<open>range\<close> yields on it. For well-formed UTF-8 the string
  and that sequence determine each other, and the operations used by the provider
  (\<^verbatim>\<open>len(s) > 0\<close>, \<^verbatim>\<open>strings.HasSuffix\<close>, \<^verbatim>\<open>strings.Split\<close>,
  \<^verbatim>\<open>strings.FieldsFunc\<close>, \<^verbatim>\<open>strings.Join\<close>) act on both in the same way.
  \<open>str\<close> reads an ASCII literal as such a sequence.
\<close>

type_synonym rune = int
type_synonym gostring = "rune list"

definition str :: "string \<Rightarrow> gostring" where
  "str cs = map of_char cs"

section \<open>The string functions of the Go library\<close>

text \<open>
  \<^verbatim>\<open>strings.HasPrefix\<close> and \<^verbatim>\<open>strings.HasSuffix\<close>: a length test and the
  comparison of a slice of \<open>s\<close>.
\<close>

definition HasPrefix :: "gostring \<Rightarrow> gostring \<Rightarrow> bool" where
  "HasPrefix s pre = (length s \<ge> length pre \<and> take (length pre) s = pre)"

definition HasSuffix :: "gostring \<Rightarrow> gostring \<Rightarrow> bool" where
  "HasSuffix s suffix =
     (length s \<ge> length suffix \<and> drop (length s - length suffix) s = suffix)"

text \<open>
  \<^verbatim>\<open>strings.Index\<close>: the index of the first instance of \<open>substr\<close> in \<open>s\<close>, or \<open>-1\<close>
  when there is none.
\<close>

fun Index :: "gostring \<Rightarrow> gostring \<Rightarrow> int" where
  "Index [] substr = (if substr = [] then 0 else - 1)"
| "Index (c # s) substr =
     (if HasPrefix (c # s) substr then 0
      else (let i = Index s substr in if i < 0 then - 1 else i + 1))"

text \<open>
  \<^verbatim>\<open>strings.Count\<close>: the number of non-overlapping instances of \<open>substr\<close>; for an
  empty \<open>substr\<close>, one more than the number of runes. The loop of the library
  (\<^verbatim>\<open>i := Index(s, substr); if i == -1 { return n }; n++; s = s[i+len(substr):]\<close>)
  is \<open>Count_loop\<close>.
\<close>

lemma Index_found_length:
  "Index s substr \<noteq> - 1 \<Longrightarrow> nat (Index s substr) + length substr \<le> length s"
  by (induction s) (auto simp: HasPrefix_def Let_def split: if_splits)

function Count_loop :: "gostring \<Rightarrow> gostring \<Rightarrow> int \<Rightarrow> int" where
  "Count_loop s substr n =
     (if length substr = 0 then n
      else (let i = Index s substr
            in if i = - 1 then n
               else Count_loop (drop (nat i + length substr) s) substr (n + 1)))"
  by pat_completeness auto
termination
proof (relation "measure (\<lambda>(s, substr, n). length s)")
  show "wf (measure (\<lambda>(s, substr, n). length s))" by simp
next
  fix s substr :: gostring and n :: int and i :: int
  assume "length substr \<noteq> 0" and "i = Index s substr" and "i \<noteq> - 1"
  then have "nat i + length substr \<le> length s" and "0 < length substr"
    using Index_found_length [of s substr] by simp_all
  then show "((drop (nat i + length substr) s, substr, n + 1), (s, substr, n))
      \<in> measure (\<lambda>(s, substr, n). length s)"
    by (cases substr) simp_all
qed

definition Count :: "gostring \<Rightarrow> gostring \<Rightarrow> int" where
  "Count s substr =
     (if length substr = 0 then int (length s) + 1 else Count_loop s substr 0)"

text \<open>
  \<^verbatim>\<open>explode\<close> splits \<open>s\<close> into its runes, at most \<open>n\<close> strings (all of them when
  \<open>n < 0\<close>), the last one holding the rest.
\<close>

definition explode :: "gostring \<Rightarrow> int \<Rightarrow> gostring list" where
  "explode s n =
     (let l = int (length s);
          n' = (if n < 0 \<or> n > l then l else n)
      in if n' > 0 then map (\<lambda>c. [c]) (take (nat n' - 1) s) @ [drop (nat n' - 1) s]
         else [])"

text \<open>
  \<^verbatim>\<open>genSplit\<close>, the worker of \<^verbatim>\<open>strings.Split\<close>: no result for \<open>n = 0\<close>,
  \<^verbatim>\<open>explode\<close> for an empty separator, and otherwise the loop that cuts \<open>s\<close> at the
  next instance of \<open>sep\<close>, at most \<open>n - 1\<close> times. The first argument of
  \<open>genSplit_loop\<close> is the number of iterations the loop condition \<^verbatim>\<open>i < n\<close>
  still allows.
\<close>

fun genSplit_loop :: "nat \<Rightarrow> gostring \<Rightarrow> gostring \<Rightarrow> nat \<Rightarrow> gostring list" where
  "genSplit_loop 0 s sep sepSave = [s]"
| "genSplit_loop (Suc k) s sep sepSave =
     (let m = Index s sep
      in if m < 0 then [s]
         else take (nat m + sepSave) s
                # genSplit_loop k (drop (nat m + length sep) s) sep sepSave)"

definition genSplit :: "gostring \<Rightarrow> gostring \<Rightarrow> nat \<Rightarrow> int \<Rightarrow> gostring list" where
  "genSplit s sep sepSave n =
     (if n = 0 then []
      else if sep = [] then explode s n
      else (let n' = (if n < 0 then Count s sep + 1 else n)
            in genSplit_loop (nat (n' - 1)) s sep sepSave))"

definition Split :: "gostring \<Rightarrow> gostring \<Rightarrow> gostring list" where
  "Split s sep = genSplit s sep 0 (- 1)"

text \<open>
  \<^verbatim>\<open>strings.Join\<close>: the elements of \<open>a\<close> with \<open>sep\<close> between them.
\<close>

fun Join :: "gostring list \<Rightarrow> gostring \<Rightarrow> gostring" where
  "Join [] sep = []"
| "Join [x] sep = x"
| "Join (x # rest) sep = x @ concat (map (\<lambda>s. sep @ s) rest)"

text \<open>
  \<^verbatim>\<open>strings.FieldsFunc\<close>: one pass over the runes of \<open>s\<close> at index \<open>i\<close>, with
  \<open>fieldStart\<close> the index where the current field began, or \<open>-1\<close> between fields. A
  rune that satisfies \<open>f\<close> closes the current field \<^verbatim>\<open>s[fieldStart:i]\<close>; the last
  field may end with the string.
\<close>

definition slice_lo_hi :: "'a list \<Rightarrow> nat \<Rightarrow> nat \<Rightarrow> 'a list" where
  "slice_lo_hi s lo hi = take (hi - lo) (drop lo s)"

function FieldsFunc_loop ::
  "gostring \<Rightarrow> (rune \<Rightarrow> bool) \<Rightarrow> nat \<Rightarrow> int \<Rightarrow> gostring list \<Rightarrow> gostring list" where
  "FieldsFunc_loop s f i fieldStart a =
     (if i < length s then
        (if f (s ! i) then
           (if fieldStart \<ge> 0
            then FieldsFunc_loop s f (i + 1) (- 1) (a @ [slice_lo_hi s (nat fieldStart) i])
            else FieldsFunc_loop s f (i + 1) fieldStart a)
         else if fieldStart = - 1 then FieldsFunc_loop s f (i + 1) (int i) a
         else FieldsFunc_loop s f (i + 1) fieldStart a)
      else (if fieldStart \<ge> 0 then a @ [drop (nat fieldStart) s] else a))"
  by pat_completeness auto
termination
  by (relation "measure (\<lambda>(s, f, i, fieldStart, a). length s - i)") auto

definition FieldsFunc :: "gostring \<Rightarrow> (rune \<Rightarrow> bool) \<Rightarrow> gostring list" where
  "FieldsFunc s f = FieldsFunc_loop s f 0 (- 1) []"

section \<open>The rune classes of the Go library\<close>

text \<open>
  \<^verbatim>\<open>unicode.IsLetter\<close>, \<^verbatim>\<open>unicode.IsNumber\<close> and \<^verbatim>\<open>unicode.IsDigit\<close> answer from
  a fixed table for the runes up to \<^verbatim>\<open>MaxLatin1\<close> and from the range tables
  \<^verbatim>\<open>Letter\<close> (category L), \<^verbatim>\<open>Number\<close> (category N) and \<^verbatim>\<open>Digit\<close>
  (category Nd) above it. The range tables are a parameter: a record of the three
  membership tests. The Latin-1 part is written out: the letters are A-Z, a-z,
  U+00AA, U+00B5, U+00BA, U+00C0-U+00D6, U+00D8-U+00F6 and U+00F8-U+00FF; the numbers
  are 0-9, the superscripts U+00B2, U+00B3, U+00B9 and the fractions U+00BC-U+00BE;
  the digits are 0-9.
\<close>

record RangeTables =
  Letter :: "rune \<Rightarrow> bool"
  Number :: "rune \<Rightarrow> bool"
  Digit :: "rune \<Rightarrow> bool"

definition MaxLatin1 :: rune where
  "MaxLatin1 = 0xFF"

definition latin1_letter :: "rune \<Rightarrow> bool" where
  "latin1_letter r =
     ((0x41 \<le> r \<and> r \<le> 0x5A) \<or> (0x61 \<le> r \<and> r \<le> 0x7A) \<or> r = 0xAA \<or> r = 0xB5 \<or>
      r = 0xBA \<or> (0xC0 \<le> r \<and> r \<le> 0xD6) \<or> (0xD8 \<le> r \<and> r \<le> 0xF6) \<or>
      (0xF8 \<le> r \<and> r \<le> 0xFF))"

definition latin1_number :: "rune \<Rightarrow> bool" where
  "latin1_number r =
     ((0x30 \<le> r \<and> r \<le> 0x39) \<or> r = 0xB2 \<or> r = 0xB3 \<or> r = 0xB9 \<or>
      (0xBC \<le> r \<and> r \<le> 0xBE))"

definition IsLetter :: "RangeTables \<Rightarrow> rune \<Rightarrow> bool" where
  "IsLetter U r = (if 0 \<le> r \<and> r \<le> MaxLatin1 then latin1_letter r else Letter U r)"

definition IsNumber :: "RangeTables \<Rightarrow> rune \<Rightarrow> bool" where
  "IsNumber U r = (if 0 \<le> r \<and> r \<le> MaxLatin1 then latin1_number r else Number U r)"

definition IsDigit :: "RangeTables \<Rightarrow> rune \<Rightarrow> bool" where
  "IsDigit U r = (if r \<le> MaxLatin1 then 0x30 \<le> r \<and> r \<le> 0x39 else Digit U r)"

section \<open>The string transforms of the provider\<close>

text \<open>\<^verbatim>\<open>split\<close> of \<^verbatim>\<open>provider.go\<close>: \<^verbatim>\<open>strings.Split\<close> with the arguments swapped.\<close>

definition split :: "gostring \<Rightarrow> gostring \<Rightarrow> gostring list" where
  "split sep s = Split s sep"

text \<open>
  \<^verbatim>\<open>Normalize\<close>: the fields of \<open>name\<close> between the runes that are neither a letter
  nor a number, joined with a hyphen. \<open>fargs\<close> is the closure of the source.
\<close>

definition fargs :: "RangeTables \<Rightarrow> rune \<Rightarrow> bool" where
  "fargs U c = (\<not> IsLetter U c \<and> \<not> IsNumber U c)"

definition Normalize :: "RangeTables \<Rightarrow> gostring \<Rightarrow> gostring" where
  "Normalize U name = Join (FieldsFunc name (fargs U)) (str ''-'')"

text \<open>
  \<^verbatim>\<open>ReverseStringSlice\<close>: the loop swaps the elements at \<open>i\<close> and \<open>j\<close> while
  \<open>i < j\<close>. The slice is passed in and the updated slice is returned; an index out of
  range, where Go panics, is \<open>None\<close>.
\<close>

function ReverseStringSlice_loop :: "gostring list \<Rightarrow> int \<Rightarrow> int \<Rightarrow> gostring list option" where
  "ReverseStringSlice_loop slice i j =
     (if i < j then
        (if 0 \<le> i \<and> i < int (length slice) \<and> 0 \<le> j \<and> j < int (length slice)
         then ReverseStringSlice_loop
                (slice[nat i := slice ! nat j, nat j := slice ! nat i]) (i + 1) (j - 1)
         else None)
      else Some slice)"
  by pat_completeness auto
termination
  by (relation "measure (\<lambda>(slice, i, j). nat (j - i))") auto

definition ReverseStringSlice :: "gostring list \<Rightarrow> gostring list option" where
  "ReverseStringSlice slice = ReverseStringSlice_loop slice 0 (int (length slice) - 1)"

section \<open>Constraints and the provider\<close>

text \<open>
  Modelled from the spec: the package \<^verbatim>\<open>types\<close> that declares \<^verbatim>\<open>Constraint\<close> and
  \<^verbatim>\<open>Constraints\<close> is not part of the sources. The spec gives a constraint the fields
  key, value (the pattern) and mustMatch; \<^verbatim>\<open>provider.go\<close> reads \<^verbatim>\<open>MustMatch\<close>.
  \<^verbatim>\<open>Constraints\<close> is an ordered sequence of constraints. The elements are taken to be
  proper constraints: a nil entry is not a constraint of the spec's data model.
\<close>

record Constraint =
  Key :: gostring
  Value :: gostring
  MustMatch :: bool

type_synonym Constraints = "Constraint list"

text \<open>The struct \<^verbatim>\<open>BaseProvider\<close> of \<^verbatim>\<open>provider.go\<close>.\<close>

record BaseProvider =
  Watch :: bool
  Filename :: gostring
  Constraints :: Constraints
  Trace :: bool
  DebugLogGeneratedTemplate :: bool

text \<open>
  Modelled from the spec: the method \<^verbatim>\<open>MatchConstraintWithAtLeastOneTag\<close> of
  \<^verbatim>\<open>types.Constraint\<close> is not part of the sources. The spec: "exists tag in tags such
  that tag satisfies constraint.value". How one tag is compared with a pattern is left
  open by the spec; it is the parameter \<open>sat\<close> (pattern first, tag second).
\<close>

fun MatchConstraintWithAtLeastOneTag ::
  "(gostring \<Rightarrow> gostring \<Rightarrow> bool) \<Rightarrow> Constraint \<Rightarrow> gostring list \<Rightarrow> bool" where
  "MatchConstraintWithAtLeastOneTag sat c [] = False"
| "MatchConstraintWithAtLeastOneTag sat c (tag # tags) =
     (if sat (Value c) tag then True else MatchConstraintWithAtLeastOneTag sat c tags)"

text \<open>
  \<^verbatim>\<open>MatchConstraints\<close>: the \<^verbatim>\<open>range\<close> loop over \<^verbatim>\<open>p.Constraints\<close> is
  \<open>MatchConstraints_loop\<close>; the result pair is Go's \<^verbatim>\<open>(bool, *types.Constraint)\<close>,
  with \<open>None\<close> for nil.
\<close>

fun MatchConstraints_loop ::
  "(gostring \<Rightarrow> gostring \<Rightarrow> bool) \<Rightarrow> Constraint list \<Rightarrow> gostring list
    \<Rightarrow> bool \<times> Constraint option" where
  "MatchConstraints_loop sat [] tags = (True, None)"
| "MatchConstraints_loop sat (constraint # rest) tags =
     (let ok = MatchConstraintWithAtLeastOneTag sat constraint tags
      in if ok \<noteq> MustMatch constraint then (False, Some constraint)
         else MatchConstraints_loop sat rest tags)"

definition MatchConstraints ::
  "(gostring \<Rightarrow> gostring \<Rightarrow> bool) \<Rightarrow> BaseProvider \<Rightarrow> gostring list
    \<Rightarrow> bool \<times> Constraint option" where
  "MatchConstraints sat p tags =
     (if length tags = 0 \<and> length (Constraints p) = 0 then (True, None)
      else MatchConstraints_loop sat (Constraints p) tags)"

text \<open>A constraint is satisfied when the tag test agrees with its \<^verbatim>\<open>MustMatch\<close> flag.\<close>

definition satisfied ::
  "(gostring \<Rightarrow> gostring \<Rightarrow> bool) \<Rightarrow> gostring list \<Rightarrow> Constraint \<Rightarrow> bool" where
  "satisfied sat tags c = (list_ex (sat (Value c)) tags = MustMatch c)"

section \<open>Configuration from a template\<close>

text \<open>
  The values of a \<^verbatim>\<open>template.FuncMap\<close> that \<^verbatim>\<open>GetConfiguration\<close> handles: the
  three functions it installs itself, \<^verbatim>\<open>strings.ToLower\<close>, \<^verbatim>\<open>Normalize\<close> and
  \<^verbatim>\<open>split\<close>, and any other callable (of the sprig library or of the caller).
\<close>

datatype 'f func = strings_ToLower | func_Normalize | func_split | Other 'f

type_synonym 'f FuncMap = "gostring \<rightharpoonup> 'f func"

text \<open>
  The result of a Go call that may panic: \<open>Panics\<close>, or the values it returns.
\<close>

datatype 'r go_result = Panics | Returns 'r

text \<open>
  A \<^verbatim>\<open>text/template\<close> template before parsing: its name and its function map.
  \<^verbatim>\<open>template.New\<close> starts with no function of the caller's. \<^verbatim>\<open>Funcs\<close> adds the
  entries of a map to the template's, replacing entries of the same name, and panics
  when an entry cannot be installed: \<^verbatim>\<open>addValueFuncs\<close> of the library refuses a name
  that is no identifier (\<^verbatim>\<open>goodName\<close>: not empty, made of letters, digits and
  underscores, and not starting with a digit) and a value that is no function with
  results the library can use. The three functions the provider installs are such
  functions; for any other value the test is the parameter \<open>ok\<close>. A panic is \<open>None\<close>.
\<close>

record 'f Template =
  Name :: gostring
  funcs :: "'f FuncMap"

definition New :: "gostring \<Rightarrow> 'f Template" where
  "New n = \<lparr>Name = n, funcs = Map.empty\<rparr>"

fun goodName_loop :: "RangeTables \<Rightarrow> bool \<Rightarrow> gostring \<Rightarrow> bool" where
  "goodName_loop U first [] = True"
| "goodName_loop U first (r # rest) =
     (if r = 0x5F then goodName_loop U False rest
      else if first \<and> \<not> IsLetter U r then False
      else if \<not> IsLetter U r \<and> \<not> IsDigit U r then False
      else goodName_loop U False rest)"

definition goodName :: "RangeTables \<Rightarrow> gostring \<Rightarrow> bool" where
  "goodName U n = (if n = [] then False else goodName_loop U True n)"

fun goodFunc :: "('f \<Rightarrow> bool) \<Rightarrow> 'f func \<Rightarrow> bool" where
  "goodFunc ok strings_ToLower = True"
| "goodFunc ok func_Normalize = True"
| "goodFunc ok func_split = True"
| "goodFunc ok (Other f) = ok f"

definition addValueFuncs ::
  "RangeTables \<Rightarrow> ('f \<Rightarrow> bool) \<Rightarrow> 'f FuncMap \<Rightarrow> 'f FuncMap \<Rightarrow> 'f FuncMap option" where
  "addValueFuncs U ok out m =
     (if \<forall>n fn. m n = Some fn \<longrightarrow> goodName U n \<and> goodFunc ok fn
      then Some (out ++ m) else None)"

definition Funcs ::
  "RangeTables \<Rightarrow> ('f \<Rightarrow> bool) \<Rightarrow> 'f Template \<Rightarrow> 'f FuncMap \<Rightarrow> 'f Template option" where
  "Funcs U ok t m =
     (case addValueFuncs U ok (funcs t) m of
        None \<Rightarrow> None
      | Some out \<Rightarrow> Some (t\<lparr>funcs := out\<rparr>))"

text \<open>
  What \<^verbatim>\<open>GetConfiguration\<close> calls outside the provider is a parameter, one field
  each: \<^verbatim>\<open>ioutil.ReadFile\<close>, \<^verbatim>\<open>gentemplates.Asset\<close> (generated code of the
  repository that is not part of the sources), \<^verbatim>\<open>sprig.TxtFuncMap\<close>,
  \<^verbatim>\<open>(*Template).Parse\<close>, \<^verbatim>\<open>(*Template).Execute\<close> (the text written to the buffer
  and the error), \<^verbatim>\<open>toml.Decode\<close> (the configuration after decoding and the error)
  and the zero value that \<^verbatim>\<open>new(types.Configuration)\<close> allocates. Two more fields
  are what \<^verbatim>\<open>Funcs\<close> tests with: the range tables of the rune classes, and which
  values other than the provider's own three are functions it can install. An error
  value \<open>Some e\<close> or \<open>Inl e\<close> is Go's non-nil \<^verbatim>\<open>error\<close>.
\<close>

record ('f, 'e, 't, 'o, 'c) World =
  ReadFile :: "gostring \<Rightarrow> 'e + gostring"
  Asset :: "gostring \<Rightarrow> 'e + gostring"
  TxtFuncMap :: "'f FuncMap"
  Parse :: "'f Template \<Rightarrow> gostring \<Rightarrow> 'e + 't"
  Execute :: "'f Template \<Rightarrow> 't \<Rightarrow> 'o \<Rightarrow> gostring \<times> 'e option"
  Decode :: "gostring \<Rightarrow> 'c \<Rightarrow> 'c \<times> 'e option"
  newConfiguration :: 'c
  Tables :: RangeTables
  installable :: "'f \<Rightarrow> bool"

text \<open>The calls made outside the provider, in the order they are made.\<close>

datatype ('f, 'o) call =
    CallReadFile gostring
  | CallAsset gostring
  | CallParse "'f Template" gostring
  | CallExecute "'f Template" 'o
  | CallDebugf gostring gostring
  | CallDecode gostring

text \<open>
  \<^verbatim>\<open>getTemplateContent\<close>: Go's result pair \<^verbatim>\<open>(string, error)\<close> and the calls made.
\<close>

definition getTemplateContent ::
  "('f, 'e, 't, 'o, 'c) World \<Rightarrow> BaseProvider \<Rightarrow> gostring
    \<Rightarrow> (gostring \<times> 'e option) \<times> ('f, 'o) call list" where
  "getTemplateContent W p defaultTemplateFile =
     (if length (Filename p) > 0 then
        (case ReadFile W (Filename p) of
           Inl err \<Rightarrow> (([], Some err), [CallReadFile (Filename p)])
         | Inr buf \<Rightarrow> ((buf, None), [CallReadFile (Filename p)]))
      else if HasSuffix defaultTemplateFile (str ''.tmpl'') then
        (case Asset W defaultTemplateFile of
           Inl err \<Rightarrow> (([], Some err), [CallAsset defaultTemplateFile])
         | Inr buf \<Rightarrow> ((buf, None), [CallAsset defaultTemplateFile]))
      else ((defaultTemplateFile, None), []))"

text \<open>
  The function map of \<^verbatim>\<open>GetConfiguration\<close>. The caller's \<^verbatim>\<open>funcMap\<close> is the list
  of its entries in the order in which \<^verbatim>\<open>range\<close> visits them (a Go map holds a key
  once, in no fixed order); \<open>range_funcMap\<close> is the loop that stores each one.
\<close>

fun range_funcMap :: "'f FuncMap \<Rightarrow> (gostring \<times> 'f func) list \<Rightarrow> 'f FuncMap" where
  "range_funcMap defaultFuncMap [] = defaultFuncMap"
| "range_funcMap defaultFuncMap ((funcID, funcElement) # rest) =
     range_funcMap (defaultFuncMap(funcID \<mapsto> funcElement)) rest"

definition defaultFuncMap ::
  "('f, 'e, 't, 'o, 'c) World \<Rightarrow> (gostring \<times> 'f func) list \<Rightarrow> 'f FuncMap" where
  "defaultFuncMap W funcMap =
     range_funcMap
       ((TxtFuncMap W)
          (str ''tolower'' \<mapsto> strings_ToLower,
           str ''normalize'' \<mapsto> func_Normalize,
           str ''split'' \<mapsto> func_split))
       funcMap"

text \<open>
  \<^verbatim>\<open>GetConfiguration\<close>: Go's result pair \<^verbatim>\<open>(*types.Configuration, error)\<close>, with
  \<open>None\<close> for nil, or a panic, and the calls made. The template is made, and its
  functions installed, before the template source is resolved.
\<close>

definition GetConfiguration ::
  "('f, 'e, 't, 'o, 'c) World \<Rightarrow> BaseProvider \<Rightarrow> gostring \<Rightarrow> (gostring \<times> 'f func) list \<Rightarrow> 'o
    \<Rightarrow> ('c option \<times> 'e option) go_result \<times> ('f, 'o) call list" where
  "GetConfiguration W p defaultTemplateFile funcMap templateObjects =
     (let configuration = newConfiguration W
      in case Funcs (Tables W) (installable W) (New (Filename p)) (defaultFuncMap W funcMap) of
           None \<Rightarrow> (Panics, [])
         | Some tmpl \<Rightarrow>
     (let ((tmplContent, err), calls1) = getTemplateContent W p defaultTemplateFile
      in case err of
           Some e \<Rightarrow> (Returns (None, Some e), calls1)
         | None \<Rightarrow>
             (let calls2 = calls1 @ [CallParse tmpl tmplContent]
              in case Parse W tmpl tmplContent of
                   Inl e \<Rightarrow> (Returns (None, Some e), calls2)
                 | Inr tree \<Rightarrow>
                     (let calls3 = calls2 @ [CallExecute tmpl templateObjects]
                      in case Execute W tmpl tree templateObjects of
                           (buffer, Some e) \<Rightarrow> (Returns (None, Some e), calls3)
                         | (renderedTemplate, None) \<Rightarrow>
                             (let calls4 = calls3 @
                                    (if DebugLogGeneratedTemplate p
                                     then [CallDebugf defaultTemplateFile renderedTemplate]
                                     else []) @
                                    [CallDecode renderedTemplate]
                              in case Decode W renderedTemplate configuration of
                                   (decoded, Some e) \<Rightarrow> (Returns (None, Some e), calls4)
                                 | (decoded, None) \<Rightarrow>
                                     (Returns (Some decoded, None), calls4))))))"

section \<open>Normalize in the words of the spec\<close>

text \<open>
  The words of the spec for \<^verbatim>\<open>Normalize\<close>: split the string on every maximal run of
  separator characters, discard the empty fragments and join the rest with a hyphen.
  \<open>split_runs\<close> cuts a fragment off at the first separator, skips the whole run of
  separators and goes on behind it; a string that begins or ends with a separator gives
  an empty first or last fragment.
\<close>

function split_runs :: "(rune \<Rightarrow> bool) \<Rightarrow> gostring \<Rightarrow> gostring list" where
  "split_runs sepchar s =
     (let fragment = takeWhile (\<lambda>c. \<not> sepchar c) s;
          rest = dropWhile (\<lambda>c. \<not> sepchar c) s
      in if rest = [] then [fragment]
         else fragment # split_runs sepchar (dropWhile sepchar rest))"
  by pat_completeness auto
termination
proof (relation "measure (\<lambda>(sepchar, s). length s)")
  show "wf (measure (\<lambda>(sepchar, s). length s))" by simp
next
  fix sepchar :: "rune \<Rightarrow> bool" and s fragment rest :: gostring
  assume rest: "rest = dropWhile (\<lambda>c. \<not> sepchar c) s" and ne: "rest \<noteq> []"
  then have "sepchar (hd rest)"
    using hd_dropWhile [of "\<lambda>c. \<not> sepchar c" s] by simp
  with ne have "length (dropWhile sepchar rest) < length rest"
    by (cases rest) (simp_all add: le_imp_less_Suc length_dropWhile_le)
  also have "length rest \<le> length s"
    unfolding rest by (rule length_dropWhile_le)
  finally show "((sepchar, dropWhile sepchar rest), (sepchar, s))
      \<in> measure (\<lambda>(sepchar, s). length s)"
    by simp
qed

definition fragments :: "(rune \<Rightarrow> bool) \<Rightarrow> gostring \<Rightarrow> gostring list" where
  "fragments sepchar s = filter (\<lambda>fragment. fragment \<noteq> []) (split_runs sepchar s)"

definition join_fragments :: "(rune \<Rightarrow> bool) \<Rightarrow> gostring \<Rightarrow> gostring" where
  "join_fragments sepchar s = Join (fragments sepchar s) (str ''-'')"

text \<open>
  The separator as the spec words it: a character that is neither a Unicode letter nor
  a Unicode digit.
\<close>

definition Normalize_letter_digit :: "RangeTables \<Rightarrow> gostring \<Rightarrow> gostring" where
  "Normalize_letter_digit U s = join_fragments (\<lambda>c. \<not> IsLetter U c \<and> \<not> IsDigit U c) s"

text \<open>Range tables to evaluate on: no rune above Latin-1 is in a class.\<close>

definition no_tables :: RangeTables where
  "no_tables = \<lparr>Letter = (\<lambda>r. False), Number = (\<lambda>r. False), Digit = (\<lambda>r. False)\<rparr>"

section \<open>Examples to evaluate on\<close>

text \<open>
  A world to evaluate on. One file and one asset exist; the text \<^verbatim>\<open>{{\<close> does not
  parse; executing on the object \<^verbatim>\<open>bad\<close> fails after one rune is written, and
  otherwise renders the template text followed by the object; the rendered text
  \<^verbatim>\<open>x=\<close> does not decode, any other text decodes to itself. The sprig map holds
  \<^verbatim>\<open>lower\<close> and its own \<^verbatim>\<open>split\<close>. The values below 100 are functions that
  can be installed.
\<close>

definition example_world :: "(nat, string, gostring, gostring, gostring) World" where
  "example_world =
     \<lparr>ReadFile = (\<lambda>file. if file = str ''ok.tmpl'' then Inr (str ''from file'')
                        else Inl ''no such file''),
      Asset = (\<lambda>n. if n = str ''docker.tmpl'' then Inr (str ''from asset'')
                   else Inl ''asset not found''),
      TxtFuncMap = [str ''lower'' \<mapsto> Other 0, str ''split'' \<mapsto> Other 1],
      Parse = (\<lambda>t text. if text = str ''{{'' then Inl ''parse error'' else Inr text),
      Execute = (\<lambda>t tree obj. if obj = str ''bad'' then (take 1 tree, Some ''execute error'')
                             else (tree @ obj, None)),
      Decode = (\<lambda>text cfg. if text = str ''x='' then (cfg, Some ''decode error'')
                           else (text, None)),
      newConfiguration = [],
      Tables = no_tables,
      installable = (\<lambda>f. f < 100)\<rparr>"

text \<open>Providers and constraints to evaluate on.\<close>

definition example_provider :: "gostring \<Rightarrow> Constraint list \<Rightarrow> BaseProvider" where
  "example_provider file cs =
     \<lparr>Watch = False, Filename = file, Constraints = cs, Trace = False,
      DebugLogGeneratedTemplate = True\<rparr>"

definition example_constraint :: "string \<Rightarrow> bool \<Rightarrow> Constraint" where
  "example_constraint v m = \<lparr>Key = str ''tag'', Value = str v, MustMatch = m\<rparr>"

section \<open>Constraint matching\<close>

lemma MatchConstraintWithAtLeastOneTag_list_ex:
  "MatchConstraintWithAtLeastOneTag sat c tags = list_ex (sat (Value c)) tags"
  by (induction tags) simp_all

lemma MatchConstraints_loop_all:
  "list_all (satisfied sat tags) cs \<Longrightarrow> MatchConstraints_loop sat cs tags = (True, None)"
  by (induction cs)
    (simp_all add: satisfied_def MatchConstraintWithAtLeastOneTag_list_ex)

lemma MatchConstraints_loop_first:
  "list_all (satisfied sat tags) cs1 \<Longrightarrow> \<not> satisfied sat tags c
    \<Longrightarrow> MatchConstraints_loop sat (cs1 @ c # cs2) tags = (False, Some c)"
  by (induction cs1)
    (simp_all add: satisfied_def MatchConstraintWithAtLeastOneTag_list_ex)

text \<open>
  C1. \<^verbatim>\<open>MatchConstraints\<close> goes through the constraints in order. A constraint is
  satisfied when "some tag matches its pattern" has the truth value of its
  \<^verbatim>\<open>MustMatch\<close> flag. If every constraint is satisfied (also when there is none) the
  result is \<open>(True, None)\<close>. Otherwise the result is \<open>False\<close> with the first
  constraint that is not satisfied, whatever constraints come after it.
\<close>

theorem MatchConstraints_in_order:
  "((\<forall>c \<in> set (Constraints p). (\<exists>tag \<in> set tags. sat (Value c) tag) = MustMatch c)
      \<longrightarrow> MatchConstraints sat p tags = (True, None)) \<and>
   (Constraints p = cs1 @ c # cs2 \<and>
    (\<forall>c' \<in> set cs1. (\<exists>tag \<in> set tags. sat (Value c') tag) = MustMatch c') \<and>
    (\<exists>tag \<in> set tags. sat (Value c) tag) \<noteq> MustMatch c
      \<longrightarrow> MatchConstraints sat p tags = (False, Some c))"
proof (intro conjI impI)
  assume "\<forall>c \<in> set (Constraints p). (\<exists>tag \<in> set tags. sat (Value c) tag) = MustMatch c"
  then have "list_all (satisfied sat tags) (Constraints p)"
    by (simp add: list_all_iff satisfied_def list_ex_iff)
  then have "MatchConstraints_loop sat (Constraints p) tags = (True, None)"
    by (rule MatchConstraints_loop_all)
  then show "MatchConstraints sat p tags = (True, None)"
    by (simp add: MatchConstraints_def)
next
  assume a: "Constraints p = cs1 @ c # cs2 \<and>
    (\<forall>c' \<in> set cs1. (\<exists>tag \<in> set tags. sat (Value c') tag) = MustMatch c') \<and>
    (\<exists>tag \<in> set tags. sat (Value c) tag) \<noteq> MustMatch c"
  then have "list_all (satisfied sat tags) cs1" and "\<not> satisfied sat tags c"
    by (simp_all add: list_all_iff satisfied_def list_ex_iff)
  then have "MatchConstraints_loop sat (cs1 @ c # cs2) tags = (False, Some c)"
    by (rule MatchConstraints_loop_first)
  with a show "MatchConstraints sat p tags = (False, Some c)"
    by (simp add: MatchConstraints_def)
qed

theorem MatchConstraints_in_order_witness:
  "MatchConstraints (=)
     (example_provider [] [example_constraint ''a'' True, example_constraint ''b'' False])
     [str ''a'', str ''c''] = (True, None) \<and>
   MatchConstraints (=) (example_provider [] []) [str ''a''] = (True, None) \<and>
   MatchConstraints (=)
     (example_provider []
        [example_constraint ''a'' True, example_constraint ''b'' False,
         example_constraint ''z'' True])
     [str ''a'', str ''b''] = (False, Some (example_constraint ''b'' False))"
proof (intro conjI)
  show "MatchConstraints (=)
     (example_provider [] [example_constraint ''a'' True, example_constraint ''b'' False])
     [str ''a'', str ''c''] = (True, None)"
    using MatchConstraints_in_order
      [of "example_provider [] [example_constraint ''a'' True, example_constraint ''b'' False]"
        "[str ''a'', str ''c'']" "(=)"]
    by (simp add: example_provider_def example_constraint_def str_def)
  show "MatchConstraints (=) (example_provider [] []) [str ''a''] = (True, None)"
    using MatchConstraints_in_order [of "example_provider [] []" "[str ''a'']" "(=)"]
    by (simp add: example_provider_def)
  show "MatchConstraints (=)
     (example_provider []
        [example_constraint ''a'' True, example_constraint ''b'' False,
         example_constraint ''z'' True])
     [str ''a'', str ''b''] = (False, Some (example_constraint ''b'' False))"
    using MatchConstraints_in_order
      [of "example_provider []
             [example_constraint ''a'' True, example_constraint ''b'' False,
              example_constraint ''z'' True]"
        "[str ''a'', str ''b'']" "(=)" "[example_constraint ''a'' True]"
        "example_constraint ''b'' False" "[example_constraint ''z'' True]"]
    by (simp add: example_provider_def example_constraint_def str_def)
qed

text \<open>
  C6. \<^verbatim>\<open>MatchConstraints\<close> has a result on every input: either \<open>True\<close> with no
  constraint, or \<open>False\<close> with a constraint of the provider. With no tag and no
  constraint the result is \<open>(True, None)\<close>.
\<close>

theorem MatchConstraints_total:
  "(tags = [] \<and> Constraints p = [] \<longrightarrow> MatchConstraints sat p tags = (True, None)) \<and>
   (MatchConstraints sat p tags = (True, None) \<or>
    (\<exists>c \<in> set (Constraints p). MatchConstraints sat p tags = (False, Some c)))"
proof -
  have loop: "MatchConstraints_loop sat cs tags = (True, None) \<or>
      (\<exists>c \<in> set cs. MatchConstraints_loop sat cs tags = (False, Some c))" for cs
    by (induction cs) (auto simp: Let_def)
  show ?thesis
    using loop [of "Constraints p"] by (auto simp: MatchConstraints_def)
qed

theorem MatchConstraints_total_witness:
  "MatchConstraints (=) (example_provider [] []) [] = (True, None) \<and>
   MatchConstraints (=) (example_provider [] [example_constraint ''a'' True]) [str ''b'']
     = (False, Some (example_constraint ''a'' True))"
proof (intro conjI)
  show "MatchConstraints (=) (example_provider [] []) [] = (True, None)"
    using MatchConstraints_total [of "[]" "example_provider [] []" "(=)"]
    by (simp add: example_provider_def)
  show "MatchConstraints (=) (example_provider [] [example_constraint ''a'' True]) [str ''b'']
     = (False, Some (example_constraint ''a'' True))"
    using MatchConstraints_total
      [of "[str ''b'']" "example_provider [] [example_constraint ''a'' True]" "(=)"]
    by (simp add: example_provider_def example_constraint_def str_def MatchConstraints_def)
qed

text \<open>
  C10. With no tag and at least one constraint the constraints are still evaluated. No
  tag matches, so the result is \<open>False\<close> with the first constraint whose
  \<^verbatim>\<open>MustMatch\<close> is set, and it is \<open>(True, None)\<close> exactly when no constraint has
  \<^verbatim>\<open>MustMatch\<close> set.
\<close>

theorem MatchConstraints_no_tags:
  "Constraints p \<noteq> [] \<Longrightarrow>
   (Constraints p = cs1 @ c # cs2 \<and> (\<forall>c' \<in> set cs1. \<not> MustMatch c') \<and> MustMatch c
      \<longrightarrow> MatchConstraints sat p [] = (False, Some c)) \<and>
   (MatchConstraints sat p [] = (True, None)
      \<longleftrightarrow> (\<forall>c' \<in> set (Constraints p). \<not> MustMatch c'))"
proof -
  assume ne: "Constraints p \<noteq> []"
  have first: "MatchConstraints_loop sat (xs @ c # cs2) [] = (False, Some c)"
    if "\<forall>c' \<in> set xs. \<not> MustMatch c'" and "MustMatch c" for xs
    using that by (induction xs) simp_all
  have all: "(MatchConstraints_loop sat cs [] = (True, None))
      = (\<forall>c' \<in> set cs. \<not> MustMatch c')" for cs
    by (induction cs) auto
  from ne show ?thesis
    using first [of cs1] all [of "Constraints p"] by (auto simp: MatchConstraints_def)
qed

theorem MatchConstraints_no_tags_witness:
  "MatchConstraints (=)
     (example_provider []
        [example_constraint ''a'' False, example_constraint ''b'' True,
         example_constraint ''c'' True]) []
     = (False, Some (example_constraint ''b'' True)) \<and>
   MatchConstraints (=)
     (example_provider [] [example_constraint ''a'' False, example_constraint ''b'' False]) []
     = (True, None)"
proof (intro conjI)
  show "MatchConstraints (=)
     (example_provider []
        [example_constraint ''a'' False, example_constraint ''b'' True,
         example_constraint ''c'' True]) []
     = (False, Some (example_constraint ''b'' True))"
    using MatchConstraints_no_tags
      [of "example_provider []
             [example_constraint ''a'' False, example_constraint ''b'' True,
              example_constraint ''c'' True]"
        "[example_constraint ''a'' False]" "example_constraint ''b'' True"
        "[example_constraint ''c'' True]" "(=)"]
    by (simp add: example_provider_def example_constraint_def)
  show "MatchConstraints (=)
     (example_provider [] [example_constraint ''a'' False, example_constraint ''b'' False]) []
     = (True, None)"
    using MatchConstraints_no_tags
      [of "example_provider [] [example_constraint ''a'' False, example_constraint ''b'' False]"
        "[]" "example_constraint ''a'' False" "[example_constraint ''b'' False]" "(=)"]
    by (simp add: example_provider_def example_constraint_def)
qed

section \<open>Reversal of a slice\<close>

declare ReverseStringSlice_loop.simps [simp del]

lemma ReverseStringSlice_loop_nth:
  "0 \<le> i \<Longrightarrow> j < int (length xs) \<Longrightarrow>
   \<exists>ys. ReverseStringSlice_loop xs i j = Some ys \<and> length ys = length xs \<and>
     (\<forall>k < length xs. ys ! k =
        (if i \<le> int k \<and> int k \<le> j then xs ! nat (i + j - int k) else xs ! k))"
proof (induction xs i j rule: ReverseStringSlice_loop.induct)
  case (1 xs i j)
  show ?case
  proof (cases "i < j")
    case False
    have "nat (i + j - int k) = k" if "i \<le> int k" and "int k \<le> j" for k
      using that False by simp
    with False show ?thesis
      by (simp add: ReverseStringSlice_loop.simps [of xs i j])
  next
    case True
    define xs' where "xs' = xs[nat i := xs ! nat j, nat j := xs ! nat i]"
    from True "1.prems" have bounds: "0 \<le> i" "i < int (length xs)" "0 \<le> j" "j < int (length xs)"
      by simp_all
    have len: "length xs' = length xs" by (simp add: xs'_def)
    have "\<exists>ys. ReverseStringSlice_loop xs' (i + 1) (j - 1) = Some ys \<and>
        length ys = length xs' \<and>
        (\<forall>k < length xs'. ys ! k =
          (if i + 1 \<le> int k \<and> int k \<le> j - 1 then xs' ! nat (i + 1 + (j - 1) - int k)
           else xs' ! k))"
      unfolding xs'_def
    proof (rule "1.IH")
      show "i < j" by (rule True)
      show "0 \<le> i \<and> i < int (length xs) \<and> 0 \<le> j \<and> j < int (length xs)"
        using bounds by simp
      show "0 \<le> i + 1" using bounds by simp
      show "j - 1 < int (length (xs[nat i := xs ! nat j, nat j := xs ! nat i]))"
        using bounds by simp
    qed
    then obtain ys where ys: "ReverseStringSlice_loop xs' (i + 1) (j - 1) = Some ys"
      and ylen: "length ys = length xs'"
      and ynth: "\<forall>k < length xs'. ys ! k =
        (if i + 1 \<le> int k \<and> int k \<le> j - 1 then xs' ! nat (i + 1 + (j - 1) - int k)
         else xs' ! k)"
      by blast
    have unfold: "ReverseStringSlice_loop xs i j = Some ys"
      using True bounds ys by (simp add: ReverseStringSlice_loop.simps [of xs i j] xs'_def)
    have "ys ! k = (if i \<le> int k \<and> int k \<le> j then xs ! nat (i + j - int k) else xs ! k)"
      if k: "k < length xs" for k
    proof -
      from k len have "k < length xs'" by simp
      with ynth have yk: "ys ! k =
          (if i + 1 \<le> int k \<and> int k \<le> j - 1 then xs' ! nat (i + 1 + (j - 1) - int k)
           else xs' ! k)"
        by blast
      have at_i: "xs' ! nat i = xs ! nat j"
        using True bounds by (simp add: xs'_def nth_list_update nat_eq_iff)
      have at_j: "xs' ! nat j = xs ! nat i"
        using True bounds by (simp add: xs'_def nth_list_update)
      have other: "xs' ! m = xs ! m" if "m \<noteq> nat i" and "m \<noteq> nat j" for m
        using that by (simp add: xs'_def nth_list_update)
      consider "int k < i" | "int k = i" | "i < int k \<and> int k < j" | "int k = j" | "j < int k"
        by linarith
      then show ?thesis
      proof cases
        case 1
        then have "k \<noteq> nat i" and "k \<noteq> nat j" using True bounds by linarith+
        then have "xs' ! k = xs ! k" by (rule other)
        with yk 1 show ?thesis by simp
      next
        case 2
        then have "k = nat i" by simp
        with yk 2 at_i True show ?thesis by simp
      next
        case 3
        then have "nat (i + j - int k) \<noteq> nat i" and "nat (i + j - int k) \<noteq> nat j"
          using bounds by linarith+
        then have "xs' ! nat (i + j - int k) = xs ! nat (i + j - int k)" by (rule other)
        with yk 3 show ?thesis by simp
      next
        case 4
        then have "k = nat j" by simp
        with yk 4 at_j True show ?thesis by simp
      next
        case 5
        then have "k \<noteq> nat i" and "k \<noteq> nat j" using True bounds by linarith+
        then have "xs' ! k = xs ! k" by (rule other)
        with yk 5 show ?thesis by simp
      qed
    qed
    with unfold ylen len show ?thesis by simp
  qed
qed

lemma ReverseStringSlice_rev: "ReverseStringSlice xs = Some (rev xs)"
proof -
  obtain ys where ys: "ReverseStringSlice_loop xs 0 (int (length xs) - 1) = Some ys"
    and len: "length ys = length xs"
    and nth: "\<forall>k < length xs. ys ! k =
        (if 0 \<le> int k \<and> int k \<le> int (length xs) - 1
         then xs ! nat (0 + (int (length xs) - 1) - int k) else xs ! k)"
    using ReverseStringSlice_loop_nth [of 0 "int (length xs) - 1" xs] by auto
  have "ys = rev xs"
  proof (rule nth_equalityI)
    show "length ys = length (rev xs)" using len by simp
  next
    fix k assume "k < length ys"
    with len have k: "k < length xs" by simp
    then have "nat (0 + (int (length xs) - 1) - int k) = length xs - Suc k" by simp
    with k nth show "ys ! k = rev xs ! k" by (simp add: rev_nth)
  qed
  with ys show ?thesis by (simp add: ReverseStringSlice_def)
qed

text \<open>
  C8. \<^verbatim>\<open>ReverseStringSlice\<close> returns, never indexing out of range, with a slice of
  the same length in which element \<open>i\<close> is the former element \<open>len - 1 - i\<close>. Applying
  it again restores the slice. A slice of length 0 or 1 is unchanged, and the middle
  element of a slice of odd length stays where it is.
\<close>

theorem ReverseStringSlice_involution:
  "\<exists>r. ReverseStringSlice xs = Some r \<and> ReverseStringSlice r = Some xs \<and>
     length r = length xs \<and>
     (\<forall>i < length xs. r ! i = xs ! (length xs - 1 - i)) \<and>
     (length xs \<le> 1 \<longrightarrow> r = xs) \<and>
     (odd (length xs) \<longrightarrow> r ! (length xs div 2) = xs ! (length xs div 2))"
proof -
  have small: "rev xs = xs" if "length xs \<le> 1"
    using that by (cases xs) auto
  have mid: "rev xs ! (length xs div 2) = xs ! (length xs div 2)" if "odd (length xs)"
  proof -
    from that obtain m where m: "length xs = 2 * m + 1" by (auto elim: oddE)
    then have "length xs div 2 = m" and "length xs - Suc m = m" and "m < length xs"
      by simp_all
    then show ?thesis by (simp add: rev_nth)
  qed
  show ?thesis
    using small mid by (simp add: ReverseStringSlice_rev rev_nth)
qed

theorem ReverseStringSlice_involution_witness:
  "\<exists>r. ReverseStringSlice [str ''a'', str ''b'', str ''c''] = Some r \<and>
     ReverseStringSlice r = Some [str ''a'', str ''b'', str ''c''] \<and>
     length r = 3 \<and> r ! 0 = str ''c'' \<and> r ! 1 = str ''b'' \<and> r ! 2 = str ''a''"
proof -
  from ReverseStringSlice_involution [of "[str ''a'', str ''b'', str ''c'']"]
  obtain r where r: "ReverseStringSlice [str ''a'', str ''b'', str ''c''] = Some r"
    and again: "ReverseStringSlice r = Some [str ''a'', str ''b'', str ''c'']"
    and len: "length r = length [str ''a'', str ''b'', str ''c'']"
    and nth: "\<forall>i < length [str ''a'', str ''b'', str ''c''].
        r ! i = [str ''a'', str ''b'', str ''c''] ! (length [str ''a'', str ''b'', str ''c''] - 1 - i)"
    and odd: "odd (length [str ''a'', str ''b'', str ''c'']) \<longrightarrow>
        r ! (length [str ''a'', str ''b'', str ''c''] div 2) =
        [str ''a'', str ''b'', str ''c''] ! (length [str ''a'', str ''b'', str ''c''] div 2)"
    by blast
  from odd have mid: "r ! 1 = str ''b''" by simp
  from len have len: "length r = 3" by simp
  from nth have "r ! 0 = [str ''a'', str ''b'', str ''c''] ! (2 - 0)"
    and "r ! 2 = [str ''a'', str ''b'', str ''c''] ! (2 - 2)"
    by simp_all
  then have "r ! 0 = str ''c''" and "r ! 2 = str ''a''"
    by (simp_all add: numeral_2_eq_2)
  with r again len mid show ?thesis by simp
qed

section \<open>Fields and fragments\<close>

declare FieldsFunc_loop.simps [simp del]
declare split_runs.simps [simp del]

lemma fragments_Nil: "fragments P [] = []"
  by (simp add: fragments_def split_runs.simps [of P "[]"])

lemma fragments_sep_Cons: "P c \<Longrightarrow> fragments P (c # s) = fragments P (dropWhile P s)"
  by (simp add: fragments_def split_runs.simps [of P "c # s"])

lemma fragments_dropWhile: "fragments P (dropWhile P s) = fragments P s"
proof (cases s)
  case Nil
  then show ?thesis by simp
next
  case (Cons d t)
  then show ?thesis by (cases "P d") (simp_all add: fragments_sep_Cons)
qed

lemma fragments_sep: "P c \<Longrightarrow> fragments P (c # s) = fragments P s"
  by (simp add: fragments_sep_Cons fragments_dropWhile)

lemma fragments_word:
  assumes "w \<noteq> []" and "\<forall>c \<in> set w. \<not> P c" and "t = [] \<or> P (hd t)"
  shows "fragments P (w @ t) = w # fragments P t"
proof -
  from assms(3) have tk: "takeWhile (\<lambda>c. \<not> P c) t = []"
    by (auto simp: takeWhile_eq_Nil_iff)
  then have dr: "dropWhile (\<lambda>c. \<not> P c) t = t"
    by (metis append_Nil takeWhile_dropWhile_id)
  from assms(2) have "takeWhile (\<lambda>c. \<not> P c) (w @ t) = w"
    and "dropWhile (\<lambda>c. \<not> P c) (w @ t) = t"
    using tk dr by simp_all
  then have "split_runs P (w @ t) =
      (if t = [] then [w] else w # split_runs P (dropWhile P t))"
    by (simp add: split_runs.simps [of P "w @ t"])
  with assms(1) have "fragments P (w @ t) =
      (if t = [] then [w] else w # fragments P (dropWhile P t))"
    by (simp add: fragments_def)
  then show ?thesis
    by (simp add: fragments_dropWhile fragments_Nil)
qed

lemma split_runs_no_sep: "\<forall>w \<in> set (split_runs P s). \<forall>c \<in> set w. \<not> P c"
proof (induction P s rule: split_runs.induct)
  case (1 P s)
  define fragment where "fragment = takeWhile (\<lambda>c. \<not> P c) s"
  define rest where "rest = dropWhile (\<lambda>c. \<not> P c) s"
  have unfold: "split_runs P s =
      (if rest = [] then [fragment] else fragment # split_runs P (dropWhile P rest))"
    unfolding fragment_def rest_def by (subst split_runs.simps) (simp only: Let_def)
  have fragment: "\<forall>c \<in> set fragment. \<not> P c"
    unfolding fragment_def by (auto dest: set_takeWhileD)
  show ?case
  proof (cases "rest = []")
    case True
    with unfold have "split_runs P s = [fragment]" by simp
    with fragment show ?thesis by simp
  next
    case False
    then have "\<forall>w \<in> set (split_runs P (dropWhile P rest)). \<forall>c \<in> set w. \<not> P c"
      unfolding rest_def by (intro "1.IH" [OF refl refl])
    moreover from unfold False
    have "split_runs P s = fragment # split_runs P (dropWhile P rest)"
      by simp
    ultimately show ?thesis using fragment by simp
  qed
qed

lemma fragments_words: "\<forall>w \<in> set (fragments P s). w \<noteq> [] \<and> (\<forall>c \<in> set w. \<not> P c)"
  using split_runs_no_sep [of P s] by (auto simp: fragments_def)

lemma slice_lo_hi_split:
  assumes "lo < hi" and "hi \<le> length s"
  shows "drop lo s = slice_lo_hi s lo hi @ drop hi s"
    and "slice_lo_hi s lo hi \<noteq> []"
    and "(\<forall>k. lo \<le> k \<and> k < hi \<longrightarrow> \<not> f (s ! k)) \<Longrightarrow> \<forall>c \<in> set (slice_lo_hi s lo hi). \<not> f c"
proof -
  have "drop lo s = take (hi - lo) (drop lo s) @ drop (hi - lo) (drop lo s)"
    by (rule append_take_drop_id [symmetric])
  moreover from assms have "drop (hi - lo) (drop lo s) = drop hi s"
    by simp
  ultimately show "drop lo s = slice_lo_hi s lo hi @ drop hi s"
    by (simp only: slice_lo_hi_def)
  from assms show "slice_lo_hi s lo hi \<noteq> []"
    by (simp add: slice_lo_hi_def)
  assume nosep: "\<forall>k. lo \<le> k \<and> k < hi \<longrightarrow> \<not> f (s ! k)"
  show "\<forall>c \<in> set (slice_lo_hi s lo hi). \<not> f c"
  proof
    fix c assume "c \<in> set (slice_lo_hi s lo hi)"
    then obtain m where m: "m < length (slice_lo_hi s lo hi)" and c: "c = slice_lo_hi s lo hi ! m"
      by (auto simp: in_set_conv_nth)
    from m assms have "m < hi - lo" by (simp add: slice_lo_hi_def)
    with c assms have "c = s ! (lo + m)" and "lo + m < hi"
      by (simp_all add: slice_lo_hi_def)
    with nosep show "\<not> f c" by simp
  qed
qed

lemma FieldsFunc_loop_fragments:
  assumes "i \<le> length s"
    and "fieldStart = - 1 \<or>
         (0 \<le> fieldStart \<and> nat fieldStart < i \<and>
          (\<forall>k. nat fieldStart \<le> k \<and> k < i \<longrightarrow> \<not> f (s ! k)))"
  shows "FieldsFunc_loop s f i fieldStart a =
         a @ fragments f (drop (if fieldStart = - 1 then i else nat fieldStart) s)"
  using assms
proof (induction s f i fieldStart a rule: FieldsFunc_loop.induct)
  case (1 s f i fieldStart a)
  note inv = "1.prems"(2)
  show ?case
  proof (cases "i < length s")
    case False
    with "1.prems"(1) have i: "i = length s" by simp
    show ?thesis
    proof (cases "fieldStart = - 1")
      case True
      with i show ?thesis
        by (subst FieldsFunc_loop.simps) (simp add: fragments_Nil)
    next
      case False
      with inv have fs: "0 \<le> fieldStart" "nat fieldStart < i"
        and nosep: "\<forall>k. nat fieldStart \<le> k \<and> k < i \<longrightarrow> \<not> f (s ! k)"
        by simp_all
      from fs i have "drop (nat fieldStart) s \<noteq> []" by simp
      moreover have "\<forall>c \<in> set (drop (nat fieldStart) s). \<not> f c"
      proof
        fix c assume "c \<in> set (drop (nat fieldStart) s)"
        then obtain m where "m < length s - nat fieldStart" and "c = s ! (nat fieldStart + m)"
          by (auto simp: in_set_conv_nth)
        with nosep i show "\<not> f c" by simp
      qed
      ultimately have "fragments f (drop (nat fieldStart) s @ []) =
          drop (nat fieldStart) s # fragments f []"
        by (intro fragments_word) simp_all
      with False fs i show ?thesis
        by (subst FieldsFunc_loop.simps) (simp add: fragments_Nil)
    qed
  next
    case True
    then have dropi: "drop i s = s ! i # drop (Suc i) s"
      by (simp add: Cons_nth_drop_Suc)
    from True have le: "i + 1 \<le> length s" by simp
    show ?thesis
    proof (cases "f (s ! i)")
      case sep: True
      show ?thesis
      proof (cases "fieldStart \<ge> 0")
        case in_field: True
        with inv have fs: "nat fieldStart < i"
          and nosep: "\<forall>k. nat fieldStart \<le> k \<and> k < i \<longrightarrow> \<not> f (s ! k)"
          and ne: "fieldStart \<noteq> - 1"
          by auto
        have "FieldsFunc_loop s f (i + 1) (- 1) (a @ [slice_lo_hi s (nat fieldStart) i]) =
            (a @ [slice_lo_hi s (nat fieldStart) i]) @ fragments f (drop (i + 1) s)"
          using "1.IH"(1) [OF True sep in_field le] by simp
        moreover have "fragments f (drop (nat fieldStart) s) =
            slice_lo_hi s (nat fieldStart) i # fragments f (drop (i + 1) s)"
        proof -
          from fs True have "nat fieldStart < i" and "i \<le> length s" by simp_all
          note sl = slice_lo_hi_split [OF this]
          have "fragments f (slice_lo_hi s (nat fieldStart) i @ drop i s) =
              slice_lo_hi s (nat fieldStart) i # fragments f (drop i s)"
            using sl(2) sl(3) [OF nosep] sep dropi by (intro fragments_word) simp_all
          with sl(1) sep dropi show ?thesis by (simp add: fragments_sep)
        qed
        ultimately show ?thesis
          using True sep in_field ne
          by (subst FieldsFunc_loop.simps) simp
      next
        case between: False
        with inv have fs: "fieldStart = - 1" by auto
        have "FieldsFunc_loop s f (i + 1) fieldStart a =
            a @ fragments f (drop (i + 1) s)"
          using "1.IH"(2) [OF True sep between le] fs by simp
        with True sep between fs dropi show ?thesis
          by (subst FieldsFunc_loop.simps) (simp add: fragments_sep)
      qed
    next
      case nosep_i: False
      show ?thesis
      proof (cases "fieldStart = - 1")
        case start: True
        have "FieldsFunc_loop s f (i + 1) (int i) a = a @ fragments f (drop i s)"
        proof -
          have "\<not> f (s ! k)" if "i \<le> k \<and> k < i + 1" for k
          proof -
            from that have "k = i" by linarith
            with nosep_i show ?thesis by simp
          qed
          then have "\<forall>k. nat (int i) \<le> k \<and> k < i + 1 \<longrightarrow> \<not> f (s ! k)"
            by simp
          then show ?thesis
            using "1.IH"(3) [OF True nosep_i start le] by simp
        qed
        with True nosep_i start show ?thesis
          by (subst FieldsFunc_loop.simps) simp
      next
        case cont: False
        with inv have fs: "0 \<le> fieldStart" "nat fieldStart < i"
          and nosep: "\<forall>k. nat fieldStart \<le> k \<and> k < i \<longrightarrow> \<not> f (s ! k)"
          by simp_all
        from nosep nosep_i have "\<forall>k. nat fieldStart \<le> k \<and> k < i + 1 \<longrightarrow> \<not> f (s ! k)"
          by (auto simp: less_Suc_eq)
        with fs cont have "FieldsFunc_loop s f (i + 1) fieldStart a =
            a @ fragments f (drop (nat fieldStart) s)"
          using "1.IH"(4) [OF True nosep_i cont le] by simp
        with True nosep_i cont show ?thesis
          by (subst FieldsFunc_loop.simps) simp
      qed
    qed
  qed
qed

lemma FieldsFunc_fragments: "FieldsFunc s f = fragments f s"
  using FieldsFunc_loop_fragments [of 0 s "- 1" f "[]"] by (simp add: FieldsFunc_def)

section \<open>Normalize\<close>

lemma Join_Cons: "Join (y # rest) sep = y @ concat (map (\<lambda>s. sep @ s) rest)"
  by (cases rest) simp_all

lemma Join_Cons_Cons: "Join (x # y # rest) sep = x @ sep @ Join (y # rest) sep"
  by (simp add: Join_Cons)

lemma fragments_Join:
  assumes "\<forall>w \<in> set ws. w \<noteq> [] \<and> (\<forall>c \<in> set w. \<not> P c)" and "P h"
  shows "fragments P (Join ws [h]) = ws"
  using assms(1)
proof (induction ws)
  case Nil
  show ?case by (simp add: fragments_Nil)
next
  case (Cons x ws)
  then have IH: "fragments P (Join ws [h]) = ws" by simp
  from Cons.prems have word: "x \<noteq> []" "\<forall>c \<in> set x. \<not> P c" by simp_all
  show ?case
  proof (cases ws)
    case Nil
    from word have "fragments P (x @ []) = x # fragments P []"
      by (intro fragments_word) simp_all
    with Nil show ?thesis by (simp add: fragments_Nil)
  next
    case tail: (Cons y rest)
    from word have "fragments P (x @ (h # Join ws [h])) =
        x # fragments P (h # Join ws [h])"
      using assms(2) by (intro fragments_word) simp_all
    with IH assms(2) have "fragments P (x @ [h] @ Join ws [h]) = x # ws"
      by (simp add: fragments_sep)
    then show ?thesis
      unfolding tail by (simp only: Join_Cons_Cons)
  qed
qed

lemma fargs_hyphen: "fargs U 45"
  by (simp add: fargs_def IsLetter_def IsNumber_def MaxLatin1_def latin1_letter_def
      latin1_number_def)

lemma str_hyphen: "str ''-'' = [45]"
  by (simp add: str_def)

lemma Normalize_join_fragments: "Normalize U s = join_fragments (fargs U) s"
  by (simp add: Normalize_def join_fragments_def FieldsFunc_fragments)

text \<open>
  C7. \<^verbatim>\<open>Normalize\<close> is idempotent: the hyphen that joins the fields is itself a
  separator, and the fields hold no separator.
\<close>

theorem Normalize_idempotent: "Normalize U (Normalize U s) = Normalize U s"
proof -
  have "fragments (fargs U) (Join (fragments (fargs U) s) [45]) = fragments (fargs U) s"
    using fragments_words [of "fargs U" s] fargs_hyphen [of U] by (rule fragments_Join)
  then show ?thesis
    by (simp add: Normalize_join_fragments join_fragments_def str_hyphen)
qed

text \<open>
  C5. \<^verbatim>\<open>Normalize\<close> splits the string on every maximal run of runes that are neither
  a letter nor a number (\<^verbatim>\<open>unicode.IsNumber\<close>: the categories Nd, Nl and No, not
  the decimal digits alone), discards the empty fragments and joins the rest with a
  hyphen; the five examples of the spec hold.
\<close>

theorem Normalize_letter_number:
  "Normalize U s = join_fragments (\<lambda>c. \<not> IsLetter U c \<and> \<not> IsNumber U c) s \<and>
   Normalize U (str ''foo.bar'') = str ''foo-bar'' \<and>
   Normalize U (str ''a..b'') = str ''a-b'' \<and>
   Normalize U (str ''a.b c-d'') = str ''a-b-c-d'' \<and>
   Normalize U (str ''  '') = [] \<and>
   Normalize U [] = []"
proof (intro conjI)
  have "fargs U = (\<lambda>c. \<not> IsLetter U c \<and> \<not> IsNumber U c)"
    by (rule ext) (simp add: fargs_def)
  then show "Normalize U s = join_fragments (\<lambda>c. \<not> IsLetter U c \<and> \<not> IsNumber U c) s"
    by (simp add: Normalize_join_fragments)
  note run = Normalize_def FieldsFunc_def FieldsFunc_loop.simps slice_lo_hi_def
    fargs_def IsLetter_def IsNumber_def MaxLatin1_def latin1_letter_def latin1_number_def
    str_def
  show "Normalize U (str ''foo.bar'') = str ''foo-bar''" by (simp add: run)
  show "Normalize U (str ''a..b'') = str ''a-b''" by (simp add: run)
  show "Normalize U (str ''a.b c-d'') = str ''a-b-c-d''" by (simp add: run)
  show "Normalize U (str ''  '') = []" by (simp add: run)
  show "Normalize U [] = []" by (simp add: run)
qed

text \<open>
  C5 as worded, with "digit" for the second class, fails on a number that is not a
  digit: U+00BD, the fraction one half, is a number of category No (its numeric type is
  "numeric", not "digit" or "decimal"), so \<^verbatim>\<open>Normalize\<close> keeps \<^verbatim>\<open>a\<close>, U+00BD,
  \<^verbatim>\<open>b\<close> as one field, while a split on the characters that are neither letter nor
  digit cuts it in two. The rune is below \<^verbatim>\<open>MaxLatin1\<close>, so the range tables play
  no part.
\<close>

theorem Normalize_letter_digit_counterexample:
  "Normalize no_tables [0x61, 0xBD, 0x62] = [0x61, 0xBD, 0x62] \<and>
   Normalize_letter_digit no_tables [0x61, 0xBD, 0x62] = str ''a-b'' \<and>
   Normalize no_tables [0x61, 0xBD, 0x62] \<noteq> Normalize_letter_digit no_tables [0x61, 0xBD, 0x62]"
proof -
  have code: "Normalize no_tables [0x61, 0xBD, 0x62] = [0x61, 0xBD, 0x62]"
    by (simp add: Normalize_def FieldsFunc_def FieldsFunc_loop.simps slice_lo_hi_def
        fargs_def IsLetter_def IsNumber_def MaxLatin1_def latin1_letter_def
        latin1_number_def str_def)
  have words: "Normalize_letter_digit no_tables [0x61, 0xBD, 0x62] = str ''a-b''"
    by (simp add: Normalize_letter_digit_def join_fragments_def fragments_def
        split_runs.simps IsLetter_def IsDigit_def MaxLatin1_def latin1_letter_def str_def)
  from code words show ?thesis by (simp add: str_def)
qed

section \<open>Splitting on a separator\<close>

declare Count_loop.simps [simp del]

lemma Index_ge: "- 1 \<le> Index s sep"
  by (induction s) (simp_all add: Let_def)

lemma Index_found:
  "Index s sep \<noteq> - 1 \<Longrightarrow> take (length sep) (drop (nat (Index s sep)) s) = sep"
proof (induction s)
  case Nil
  then show ?case by (simp split: if_splits)
next
  case (Cons c s)
  show ?case
  proof (cases "HasPrefix (c # s) sep")
    case True
    then show ?thesis by (simp add: HasPrefix_def)
  next
    case False
    with Cons.prems have found: "Index s sep \<noteq> - 1" and "\<not> Index s sep < 0"
      by (auto simp: Let_def split: if_splits)
    with False have "Index (c # s) sep = Index s sep + 1" and "0 \<le> Index s sep"
      by (simp_all add: Let_def)
    then have "nat (Index (c # s) sep) = Suc (nat (Index s sep))" by simp
    with Cons.IH [OF found] show ?thesis by simp
  qed
qed

lemma Index_split:
  assumes "Index s sep \<noteq> - 1"
  shows "s = take (nat (Index s sep)) s @ sep @ drop (nat (Index s sep) + length sep) s"
proof -
  let ?m = "nat (Index s sep)"
  have "drop ?m s = take (length sep) (drop ?m s) @ drop (length sep) (drop ?m s)"
    by (rule append_take_drop_id [symmetric])
  also have "take (length sep) (drop ?m s) = sep"
    using assms by (rule Index_found)
  also have "drop (length sep) (drop ?m s) = drop (?m + length sep) s"
    by (simp add: add.commute)
  finally have "drop ?m s = sep @ drop (?m + length sep) s" .
  moreover have "s = take ?m s @ drop ?m s" by simp
  ultimately show ?thesis by simp
qed

lemma HasPrefix_take:
  "HasPrefix (take n s) sep \<Longrightarrow> HasPrefix s sep"
  by (auto simp: HasPrefix_def min_def take_take split: if_splits)

lemma Index_minimal:
  "sep \<noteq> [] \<Longrightarrow> Index s sep \<noteq> - 1 \<Longrightarrow> Index (take (nat (Index s sep)) s) sep = - 1"
proof (induction s)
  case Nil
  then show ?case by simp
next
  case (Cons c s)
  show ?case
  proof (cases "HasPrefix (c # s) sep")
    case True
    with Cons.prems show ?thesis by simp
  next
    case False
    with Cons.prems have found: "Index s sep \<noteq> - 1" and "\<not> Index s sep < 0"
      by (auto simp: Let_def split: if_splits)
    with False have "Index (c # s) sep = Index s sep + 1" and "0 \<le> Index s sep"
      by (simp_all add: Let_def)
    then have m: "nat (Index (c # s) sep) = Suc (nat (Index s sep))" by simp
    have "\<not> HasPrefix (c # take (nat (Index s sep)) s) sep"
      using False HasPrefix_take [of "Suc (nat (Index s sep))" "c # s" sep] by auto
    with Cons.IH [OF Cons.prems(1) found] m show ?thesis
      by (simp add: Let_def)
  qed
qed

lemma Index_none_iff: "Index s sep = - 1 \<longleftrightarrow> \<not> (\<exists>pre post. s = pre @ sep @ post)"
proof
  show "\<not> (\<exists>pre post. s = pre @ sep @ post)" if "Index s sep = - 1"
    using that
  proof (induction s)
    case Nil
    then show ?case by (simp split: if_splits)
  next
    case (Cons c s)
    then have np: "\<not> HasPrefix (c # s) sep" and none: "Index s sep = - 1"
      using Index_ge [of s sep] by (auto simp: Let_def split: if_splits)
    show ?case
    proof
      assume "\<exists>pre post. c # s = pre @ sep @ post"
      then obtain pre post where eq: "c # s = pre @ sep @ post" by blast
      show False
      proof (cases pre)
        case Nil
        with eq have "HasPrefix (c # s) sep" by (simp add: HasPrefix_def)
        with np show False by simp
      next
        case (Cons d pre')
        with eq have "s = pre' @ sep @ post" by simp
        with Cons.IH [OF none] show False by blast
      qed
    qed
  qed
next
  have "Index (pre @ sep @ post) sep \<noteq> - 1" for pre post
  proof (induction pre)
    case Nil
    have "HasPrefix (sep @ post) sep" by (simp add: HasPrefix_def)
    then show ?case by (cases "sep @ post") (auto split: if_splits)
  next
    case (Cons d pre)
    with Index_ge [of "pre @ sep @ post" sep] show ?case
      by (auto simp: Let_def)
  qed
  then show "Index s sep = - 1" if "\<not> (\<exists>pre post. s = pre @ sep @ post)"
    using that Index_split [of s sep] by blast
qed

lemma Count_loop_step:
  assumes "sep \<noteq> []" and "Index s sep \<noteq> - 1"
  shows "Count_loop s sep n = Count_loop (drop (nat (Index s sep) + length sep) s) sep (n + 1)"
    and "length (drop (nat (Index s sep) + length sep) s) < length s"
proof -
  from assms show "Count_loop s sep n =
      Count_loop (drop (nat (Index s sep) + length sep) s) sep (n + 1)"
    by (subst Count_loop.simps) (simp add: Let_def)
  from assms Index_found_length [of s sep]
  show "length (drop (nat (Index s sep) + length sep) s) < length s"
    by (cases sep) simp_all
qed

lemma Count_loop_stop:
  "sep = [] \<or> Index s sep = - 1 \<Longrightarrow> Count_loop s sep n = n"
  by (subst Count_loop.simps) (auto simp: Let_def)

lemma Count_loop_acc: "Count_loop s sep n = n + Count_loop s sep 0"
proof (induction "length s" arbitrary: s n rule: less_induct)
  case less
  show ?case
  proof (cases "sep = [] \<or> Index s sep = - 1")
    case True
    then show ?thesis by (simp add: Count_loop_stop)
  next
    case False
    let ?s' = "drop (nat (Index s sep) + length sep) s"
    from False have ne: "sep \<noteq> []" "Index s sep \<noteq> - 1" by simp_all
    have step: "Count_loop s sep n = Count_loop ?s' sep (n + 1)"
      "Count_loop s sep 0 = Count_loop ?s' sep (0 + 1)" and shorter: "length ?s' < length s"
      by (rule Count_loop_step [OF ne])+
    from less [OF shorter] have "Count_loop ?s' sep (n + 1) = n + 1 + Count_loop ?s' sep 0"
      and "Count_loop ?s' sep (0 + 1) = 0 + 1 + Count_loop ?s' sep 0"
      by blast+
    with step show ?thesis by simp
  qed
qed

lemma Count_loop_nonneg: "0 \<le> Count_loop s sep 0"
proof (induction "length s" arbitrary: s rule: less_induct)
  case less
  show ?case
  proof (cases "sep = [] \<or> Index s sep = - 1")
    case True
    then show ?thesis by (simp add: Count_loop_stop)
  next
    case False
    let ?s' = "drop (nat (Index s sep) + length sep) s"
    from False have ne: "sep \<noteq> []" "Index s sep \<noteq> - 1" by simp_all
    have "Count_loop s sep 0 = Count_loop ?s' sep (0 + 1)"
      and shorter: "length ?s' < length s"
      by (rule Count_loop_step [OF ne])+
    moreover have "Count_loop ?s' sep (0 + 1) = 0 + 1 + Count_loop ?s' sep 0"
      by (rule Count_loop_acc)
    moreover from less [OF shorter] have "0 \<le> Count_loop ?s' sep 0" .
    ultimately show ?thesis by simp
  qed
qed

lemma Count_loop_zero_iff:
  assumes "sep \<noteq> []"
  shows "Count_loop s sep 0 = 0 \<longleftrightarrow> Index s sep = - 1"
proof (cases "Index s sep = - 1")
  case True
  then show ?thesis by (simp add: Count_loop_stop)
next
  case False
  let ?s' = "drop (nat (Index s sep) + length sep) s"
  have "Count_loop s sep 0 = Count_loop ?s' sep (0 + 1)"
    using assms False by (rule Count_loop_step)
  also have "\<dots> = 0 + 1 + Count_loop ?s' sep 0" by (rule Count_loop_acc)
  finally have "0 < Count_loop s sep 0"
    using Count_loop_nonneg [of ?s' sep] by simp
  with False show ?thesis by simp
qed

lemma Count_loop_Suc:
  assumes "sep \<noteq> []" and "Index s sep \<noteq> - 1"
  shows "Count_loop s sep 0 = 1 + Count_loop (drop (nat (Index s sep) + length sep) s) sep 0"
proof -
  let ?s' = "drop (nat (Index s sep) + length sep) s"
  have "Count_loop s sep 0 = Count_loop ?s' sep (0 + 1)"
    using assms by (rule Count_loop_step)
  also have "\<dots> = 0 + 1 + Count_loop ?s' sep 0" by (rule Count_loop_acc)
  finally show ?thesis by simp
qed

lemma genSplit_loop_nonempty: "genSplit_loop k s sep sepSave \<noteq> []"
  by (cases k) (simp_all add: Let_def)

lemma Join_Cons_nonempty: "rest \<noteq> [] \<Longrightarrow> Join (x # rest) sep = x @ sep @ Join rest sep"
  by (cases rest) (simp_all add: Join_Cons)

lemma genSplit_loop_literal:
  "sep \<noteq> [] \<Longrightarrow> k = nat (Count_loop s sep 0) \<Longrightarrow>
   Join (genSplit_loop k s sep 0) sep = s \<and>
   (\<forall>piece \<in> set (genSplit_loop k s sep 0). Index piece sep = - 1)"
proof (induction k arbitrary: s)
  case 0
  from "0.prems"(2) have "nat (Count_loop s sep 0) = 0" by simp
  with Count_loop_nonneg [of s sep] have "Count_loop s sep 0 = 0" by linarith
  then have "Index s sep = - 1"
    using Count_loop_zero_iff [OF "0.prems"(1), of s] by blast
  then show ?case by simp
next
  case (Suc k)
  let ?m = "nat (Index s sep)"
  let ?s' = "drop (?m + length sep) s"
  from Suc.prems(2) have "Count_loop s sep 0 \<noteq> 0" by linarith
  then have found: "Index s sep \<noteq> - 1"
    using Count_loop_zero_iff [OF Suc.prems(1), of s] by blast
  with Index_ge [of s sep] have nonneg: "\<not> Index s sep < 0" by linarith
  have "Count_loop s sep 0 = 1 + Count_loop ?s' sep 0"
    using Suc.prems(1) found by (rule Count_loop_Suc)
  moreover have "0 \<le> Count_loop ?s' sep 0" by (rule Count_loop_nonneg)
  moreover note Suc.prems(2)
  ultimately have keq: "k = nat (Count_loop ?s' sep 0)" by linarith
  have "Join (genSplit_loop k ?s' sep 0) sep = ?s' \<and>
      (\<forall>piece \<in> set (genSplit_loop k ?s' sep 0). Index piece sep = - 1)"
    using Suc.prems(1) keq by (rule Suc.IH)
  then have IH1: "Join (genSplit_loop k ?s' sep 0) sep = ?s'"
    and IH2: "\<forall>piece \<in> set (genSplit_loop k ?s' sep 0). Index piece sep = - 1"
    by blast+
  have unfold: "genSplit_loop (Suc k) s sep 0 = take ?m s # genSplit_loop k ?s' sep 0"
    using nonneg by (simp add: Let_def)
  have "Join (take ?m s # genSplit_loop k ?s' sep 0) sep =
      take ?m s @ sep @ Join (genSplit_loop k ?s' sep 0) sep"
    by (rule Join_Cons_nonempty) (rule genSplit_loop_nonempty)
  also have "\<dots> = take ?m s @ sep @ ?s'" by (simp only: IH1)
  also have "\<dots> = s" by (rule Index_split [OF found, symmetric])
  finally have joined: "Join (genSplit_loop (Suc k) s sep 0) sep = s"
    by (simp only: unfold)
  have first: "Index (take ?m s) sep = - 1"
    using Suc.prems(1) found by (rule Index_minimal)
  have "\<forall>piece \<in> set (genSplit_loop (Suc k) s sep 0). Index piece sep = - 1"
    unfolding unfold using first IH2 by (metis set_ConsD)
  with joined show ?case by blast
qed

lemma explode_all: "explode s (- 1) = map (\<lambda>c. [c]) s"
proof (cases "s = []")
  case True
  then show ?thesis by (simp add: explode_def)
next
  case False
  then have "s = butlast s @ [last s]" by simp
  then have "map (\<lambda>c. [c]) s = map (\<lambda>c. [c]) (butlast s) @ [[last s]]"
    by (metis list.simps(8,9) map_append)
  moreover from False have "take (length s - 1) s = butlast s"
    by (simp add: butlast_conv_take)
  moreover from False have "drop (length s - 1) s = [last s]"
    by (metis append_butlast_last_id append_eq_conv_conj length_butlast)
  ultimately show ?thesis using False by (simp add: explode_def Let_def)
qed

lemma split_nonempty_sep:
  "sep \<noteq> [] \<Longrightarrow> split sep s = genSplit_loop (nat (Count_loop s sep 0)) s sep 0"
  by (simp add: split_def Split_def genSplit_def Count_def)

text \<open>
  C9. \<^verbatim>\<open>split\<close> with a separator that is not empty cuts \<open>s\<close> at the instances of
  \<open>sep\<close>, taken literally: the pieces joined with \<open>sep\<close> give \<open>s\<close> back and no piece
  holds \<open>sep\<close>. When \<open>sep\<close> does not occur in \<open>s\<close> the result is \<open>[s]\<close>; an empty
  \<open>s\<close> gives one empty string when \<open>sep\<close> is not empty. With an empty separator the
  result is the sequence of the characters of \<open>s\<close>, which is empty for an empty \<open>s\<close>.
\<close>

theorem split_literal:
  "(sep \<noteq> [] \<longrightarrow>
      Join (split sep s) sep = s \<and>
      (\<forall>piece \<in> set (split sep s). \<not> (\<exists>pre post. piece = pre @ sep @ post))) \<and>
   (\<not> (\<exists>pre post. s = pre @ sep @ post) \<longrightarrow> split sep s = [s]) \<and>
   (sep \<noteq> [] \<longrightarrow> split sep [] = [[]]) \<and>
   split [] s = map (\<lambda>c. [c]) s \<and>
   split (str '','') (str ''a,b,c'') = [str ''a'', str ''b'', str ''c'']"
proof (intro conjI impI)
  assume ne: "sep \<noteq> []"
  from ne have lit: "Join (genSplit_loop (nat (Count_loop s sep 0)) s sep 0) sep = s \<and>
      (\<forall>piece \<in> set (genSplit_loop (nat (Count_loop s sep 0)) s sep 0). Index piece sep = - 1)"
    by (intro genSplit_loop_literal) simp_all
  with ne show "Join (split sep s) sep = s"
    by (simp add: split_nonempty_sep)
  from lit ne show "\<forall>piece \<in> set (split sep s). \<not> (\<exists>pre post. piece = pre @ sep @ post)"
    by (simp add: split_nonempty_sep Index_none_iff)
next
  assume "\<not> (\<exists>pre post. s = pre @ sep @ post)"
  then have none: "Index s sep = - 1" and ne: "sep \<noteq> []"
    by (simp_all add: Index_none_iff) (metis append_Nil)
  then have "Count_loop s sep 0 = 0" by (simp add: Count_loop_stop)
  with ne none show "split sep s = [s]"
    by (simp add: split_nonempty_sep)
next
  assume ne: "sep \<noteq> []"
  then have "Count_loop [] sep 0 = 0" by (simp add: Count_loop_stop)
  with ne show "split sep [] = [[]]"
    by (simp add: split_nonempty_sep)
next
  show "split [] s = map (\<lambda>c. [c]) s"
    by (simp add: split_def Split_def genSplit_def explode_all)
next
  show "split (str '','') (str ''a,b,c'') = [str ''a'', str ''b'', str ''c'']"
    by (simp add: split_def Split_def genSplit_def Count_def Count_loop.simps HasPrefix_def
        Let_def str_def numeral_eq_Suc)
qed

theorem split_literal_witness:
  "Join (split (str '','') (str ''a,,b'')) (str '','') = str ''a,,b'' \<and>
   split (str '','') (str ''abc'') = [str ''abc''] \<and>
   split (str '','') [] = [[]]"
proof (intro conjI)
  have ne: "str '','' \<noteq> []" by (simp add: str_def)
  from ne show "Join (split (str '','') (str ''a,,b'')) (str '','') = str ''a,,b''"
    using split_literal [of "str '',''" "str ''a,,b''"] by blast
  have "Index (str ''abc'') (str '','') = - 1"
    by (simp add: str_def HasPrefix_def)
  then have "\<not> (\<exists>pre post. str ''abc'' = pre @ str '','' @ post)"
    using Index_none_iff [of "str ''abc''" "str '',''"] by blast
  then show "split (str '','') (str ''abc'') = [str ''abc'']"
    using split_literal [of "str '',''" "str ''abc''"] by blast
  from ne show "split (str '','') [] = [[]]"
    using split_literal [of "str '',''" "[]"] by blast
qed

text \<open>
  C9 as worded, an empty \<open>s\<close> giving one empty string for every separator, fails
  for the empty separator: \<^verbatim>\<open>strings.Split("", "")\<close> is the empty slice.
\<close>

theorem split_empty_counterexample:
  "split [] [] = [] \<and> split [] [] \<noteq> [[]]"
  by (simp add: split_def Split_def genSplit_def explode_def)

section \<open>The template source\<close>

lemma HasSuffix_iff: "HasSuffix s suf \<longleftrightarrow> (\<exists>pre. s = pre @ suf)"
proof
  assume "HasSuffix s suf"
  then have "s = take (length s - length suf) s @ suf"
    by (metis HasSuffix_def append_take_drop_id)
  then show "\<exists>pre. s = pre @ suf" ..
next
  assume "\<exists>pre. s = pre @ suf"
  then show "HasSuffix s suf" by (auto simp: HasSuffix_def)
qed

text \<open>
  C3. The template source is resolved in a fixed order. With a file name set, the
  content of the file is the source, and a read error is the error of the operation:
  neither the asset store nor the default template is consulted. With no file name and
  a default template that ends in \<^verbatim>\<open>.tmpl\<close>, the asset of that name is the source,
  and a missing asset is the error. Otherwise the default template itself is the text.
\<close>

theorem getTemplateContent_precedence:
  "(Filename p \<noteq> [] \<and> ReadFile W (Filename p) = Inr buf \<longrightarrow>
      getTemplateContent W p d = ((buf, None), [CallReadFile (Filename p)])) \<and>
   (Filename p \<noteq> [] \<and> ReadFile W (Filename p) = Inl e \<longrightarrow>
      getTemplateContent W p d = (([], Some e), [CallReadFile (Filename p)])) \<and>
   (Filename p = [] \<and> (\<exists>pre. d = pre @ str ''.tmpl'') \<and> Asset W d = Inr buf \<longrightarrow>
      getTemplateContent W p d = ((buf, None), [CallAsset d])) \<and>
   (Filename p = [] \<and> (\<exists>pre. d = pre @ str ''.tmpl'') \<and> Asset W d = Inl e \<longrightarrow>
      getTemplateContent W p d = (([], Some e), [CallAsset d])) \<and>
   (Filename p = [] \<and> \<not> (\<exists>pre. d = pre @ str ''.tmpl'') \<longrightarrow>
      getTemplateContent W p d = ((d, None), []))"
  by (simp add: getTemplateContent_def HasSuffix_iff [symmetric])

theorem getTemplateContent_precedence_witness:
  "getTemplateContent example_world (example_provider (str ''ok.tmpl'') []) (str ''docker.tmpl'')
     = ((str ''from file'', None), [CallReadFile (str ''ok.tmpl'')]) \<and>
   getTemplateContent example_world (example_provider (str ''gone.tmpl'') []) (str ''docker.tmpl'')
     = (([], Some ''no such file''), [CallReadFile (str ''gone.tmpl'')]) \<and>
   getTemplateContent example_world (example_provider [] []) (str ''docker.tmpl'')
     = ((str ''from asset'', None), [CallAsset (str ''docker.tmpl'')]) \<and>
   getTemplateContent example_world (example_provider [] []) (str ''nomad.tmpl'')
     = (([], Some ''asset not found''), [CallAsset (str ''nomad.tmpl'')]) \<and>
   getTemplateContent example_world (example_provider [] []) (str ''a = 1'')
     = ((str ''a = 1'', None), [])"
proof (intro conjI)
  have named: "Filename (example_provider (str ''ok.tmpl'') []) \<noteq> []"
    "Filename (example_provider (str ''gone.tmpl'') []) \<noteq> []"
    and nofile: "Filename (example_provider [] []) = []"
    by (simp_all add: example_provider_def str_def)
  have read: "ReadFile example_world (Filename (example_provider (str ''ok.tmpl'') []))
      = Inr (str ''from file'')"
    "ReadFile example_world (Filename (example_provider (str ''gone.tmpl'') []))
      = Inl ''no such file''"
    by (simp_all add: example_provider_def example_world_def str_def)
  have asset: "Asset example_world (str ''docker.tmpl'') = Inr (str ''from asset'')"
    "Asset example_world (str ''nomad.tmpl'') = Inl ''asset not found''"
    by (simp_all add: example_world_def str_def)
  have suffix: "\<exists>pre. str ''docker.tmpl'' = pre @ str ''.tmpl''"
    "\<exists>pre. str ''nomad.tmpl'' = pre @ str ''.tmpl''"
    "\<not> (\<exists>pre. str ''a = 1'' = pre @ str ''.tmpl'')"
    by (simp_all add: HasSuffix_iff [symmetric] HasSuffix_def str_def)
  show "getTemplateContent example_world (example_provider (str ''ok.tmpl'') [])
      (str ''docker.tmpl'') = ((str ''from file'', None), [CallReadFile (str ''ok.tmpl'')])"
    using getTemplateContent_precedence
      [of "example_provider (str ''ok.tmpl'') []" example_world "str ''from file''"
        "str ''docker.tmpl''"]
      named(1) read(1)
    by (simp add: example_provider_def)
  show "getTemplateContent example_world (example_provider (str ''gone.tmpl'') [])
      (str ''docker.tmpl'') = (([], Some ''no such file''), [CallReadFile (str ''gone.tmpl'')])"
    using getTemplateContent_precedence
      [of "example_provider (str ''gone.tmpl'') []" example_world _ "str ''docker.tmpl''"
        "''no such file''"]
      named(2) read(2)
    by (simp add: example_provider_def)
  show "getTemplateContent example_world (example_provider [] []) (str ''docker.tmpl'')
     = ((str ''from asset'', None), [CallAsset (str ''docker.tmpl'')])"
    using getTemplateContent_precedence
      [of "example_provider [] []" example_world "str ''from asset''" "str ''docker.tmpl''"]
      nofile asset(1) suffix(1)
    by blast
  show "getTemplateContent example_world (example_provider [] []) (str ''nomad.tmpl'')
     = (([], Some ''asset not found''), [CallAsset (str ''nomad.tmpl'')])"
    using getTemplateContent_precedence
      [of "example_provider [] []" example_world _ "str ''nomad.tmpl''" "''asset not found''"]
      nofile asset(2) suffix(2)
    by blast
  show "getTemplateContent example_world (example_provider [] []) (str ''a = 1'')
     = ((str ''a = 1'', None), [])"
    using getTemplateContent_precedence [of "example_provider [] []" example_world _ "str ''a = 1''"]
      nofile suffix(3)
    by blast
qed

section \<open>The stages of GetConfiguration\<close>

lemma Funcs_New_Some_iff:
  "Funcs U ok (New n) m = Some t \<longleftrightarrow>
   (\<forall>k fn. m k = Some fn \<longrightarrow> goodName U k \<and> goodFunc ok fn) \<and> t = \<lparr>Name = n, funcs = m\<rparr>"
  by (auto simp: Funcs_def addValueFuncs_def New_def)

lemma Funcs_None_iff:
  "Funcs U ok t m = None \<longleftrightarrow> (\<exists>k fn. m k = Some fn \<and> \<not> (goodName U k \<and> goodFunc ok fn))"
  by (auto simp: Funcs_def addValueFuncs_def)

lemma GetConfiguration_panics:
  "Funcs (Tables W) (installable W) (New (Filename p)) (defaultFuncMap W funcMap) = None
   \<Longrightarrow> GetConfiguration W p d funcMap obj = (Panics, [])"
  by (simp add: GetConfiguration_def Let_def)

lemma GetConfiguration_source_error:
  "Funcs (Tables W) (installable W) (New (Filename p)) (defaultFuncMap W funcMap) = Some tmpl \<Longrightarrow>
   getTemplateContent W p d = ((content, Some e), calls)
   \<Longrightarrow> GetConfiguration W p d funcMap obj = (Returns (None, Some e), calls)"
  by (simp add: GetConfiguration_def Let_def)

lemma GetConfiguration_parse_error:
  "Funcs (Tables W) (installable W) (New (Filename p)) (defaultFuncMap W funcMap) = Some tmpl \<Longrightarrow>
   getTemplateContent W p d = ((content, None), calls) \<Longrightarrow>
   Parse W tmpl content = Inl e
   \<Longrightarrow> GetConfiguration W p d funcMap obj =
       (Returns (None, Some e), calls @ [CallParse tmpl content])"
  by (simp add: GetConfiguration_def Let_def)

lemma GetConfiguration_execute_error:
  "Funcs (Tables W) (installable W) (New (Filename p)) (defaultFuncMap W funcMap) = Some tmpl \<Longrightarrow>
   getTemplateContent W p d = ((content, None), calls) \<Longrightarrow>
   Parse W tmpl content = Inr tree \<Longrightarrow>
   Execute W tmpl tree obj = (written, Some e)
   \<Longrightarrow> GetConfiguration W p d funcMap obj =
       (Returns (None, Some e), calls @ [CallParse tmpl content, CallExecute tmpl obj])"
  by (simp add: GetConfiguration_def Let_def)

lemma GetConfiguration_decode:
  "Funcs (Tables W) (installable W) (New (Filename p)) (defaultFuncMap W funcMap) = Some tmpl \<Longrightarrow>
   getTemplateContent W p d = ((content, None), calls) \<Longrightarrow>
   Parse W tmpl content = Inr tree \<Longrightarrow>
   Execute W tmpl tree obj = (rendered, None) \<Longrightarrow>
   Decode W rendered (newConfiguration W) = (decoded, err)
   \<Longrightarrow> GetConfiguration W p d funcMap obj =
       (Returns (case err of None \<Rightarrow> Some decoded | Some e \<Rightarrow> None, err),
        calls @ [CallParse tmpl content, CallExecute tmpl obj] @
          (if DebugLogGeneratedTemplate p then [CallDebugf d rendered] else []) @
          [CallDecode rendered])"
  by (cases err) (simp_all add: GetConfiguration_def Let_def)

lemma getTemplateContent_calls:
  "set (snd (getTemplateContent W p d)) \<subseteq> {CallReadFile (Filename p), CallAsset d}"
  by (auto simp: getTemplateContent_def split: sum.splits)

text \<open>
  C2. \<^verbatim>\<open>GetConfiguration\<close> installs the function map before anything else, and
  \<^verbatim>\<open>Funcs\<close> panics when the map holds a name that is no identifier or a value that
  is no function it can install: then nothing is returned and no call is made. When
  \<^verbatim>\<open>Funcs\<close> accepts the map, \<^verbatim>\<open>GetConfiguration\<close> returns either a configuration
  and no error, or an error and no configuration. It returns a configuration exactly
  when the template source, the parse, the execution and the decoding all succeed, and
  then the configuration is the decoded one. A failure of one stage is the error
  returned, and the later stages are not called: after a failed parse there is no
  execution and no decoding, after a failed execution no decoding. When the file named
  by \<^verbatim>\<open>Filename\<close> cannot be read, the read error is returned and reading the file
  was the only call made.
\<close>

theorem GetConfiguration_all_or_nothing:
  "(Funcs (Tables W) (installable W) (New (Filename p)) (defaultFuncMap W funcMap) = None \<longleftrightarrow>
      (\<exists>k fn. defaultFuncMap W funcMap k = Some fn \<and>
         \<not> (goodName (Tables W) k \<and> goodFunc (installable W) fn))) \<and>
   (Funcs (Tables W) (installable W) (New (Filename p)) (defaultFuncMap W funcMap) = None \<longrightarrow>
      GetConfiguration W p d funcMap obj = (Panics, [])) \<and>
   (Funcs (Tables W) (installable W) (New (Filename p)) (defaultFuncMap W funcMap) = Some tmpl \<longrightarrow>
   ((\<exists>c. fst (GetConfiguration W p d funcMap obj) = Returns (Some c, None)) \<or>
    (\<exists>e. fst (GetConfiguration W p d funcMap obj) = Returns (None, Some e))) \<and>
   (fst (GetConfiguration W p d funcMap obj) = Returns (Some c, None) \<longleftrightarrow>
      (\<exists>content tree rendered.
         fst (getTemplateContent W p d) = (content, None) \<and>
         Parse W tmpl content = Inr tree \<and>
         Execute W tmpl tree obj = (rendered, None) \<and>
         Decode W rendered (newConfiguration W) = (c, None))) \<and>
   (fst (getTemplateContent W p d) = (content, Some e) \<longrightarrow>
      GetConfiguration W p d funcMap obj =
        (Returns (None, Some e), snd (getTemplateContent W p d))) \<and>
   (fst (getTemplateContent W p d) = (content, None) \<and> Parse W tmpl content = Inl e \<longrightarrow>
      fst (GetConfiguration W p d funcMap obj) = Returns (None, Some e) \<and>
      (\<forall>t obj'. CallExecute t obj' \<notin> set (snd (GetConfiguration W p d funcMap obj))) \<and>
      (\<forall>r. CallDecode r \<notin> set (snd (GetConfiguration W p d funcMap obj)))) \<and>
   (fst (getTemplateContent W p d) = (content, None) \<and> Parse W tmpl content = Inr tree \<and>
    Execute W tmpl tree obj = (written, Some e) \<longrightarrow>
      fst (GetConfiguration W p d funcMap obj) = Returns (None, Some e) \<and>
      (\<forall>r. CallDecode r \<notin> set (snd (GetConfiguration W p d funcMap obj)))) \<and>
   (fst (getTemplateContent W p d) = (content, None) \<and> Parse W tmpl content = Inr tree \<and>
    Execute W tmpl tree obj = (rendered, None) \<and>
    Decode W rendered (newConfiguration W) = (partly, Some e) \<longrightarrow>
      fst (GetConfiguration W p d funcMap obj) = Returns (None, Some e)) \<and>
   (Filename p \<noteq> [] \<and> ReadFile W (Filename p) = Inl e \<longrightarrow>
      GetConfiguration W p d funcMap obj =
        (Returns (None, Some e), [CallReadFile (Filename p)])))"
proof (intro conjI impI)
  show "Funcs (Tables W) (installable W) (New (Filename p)) (defaultFuncMap W funcMap) = None \<longleftrightarrow>
      (\<exists>k fn. defaultFuncMap W funcMap k = Some fn \<and>
         \<not> (goodName (Tables W) k \<and> goodFunc (installable W) fn))"
    by (rule Funcs_None_iff)
next
  assume "Funcs (Tables W) (installable W) (New (Filename p)) (defaultFuncMap W funcMap) = None"
  then show "GetConfiguration W p d funcMap obj = (Panics, [])"
    by (rule GetConfiguration_panics)
next
  assume tmpl: "Funcs (Tables W) (installable W) (New (Filename p)) (defaultFuncMap W funcMap)
      = Some tmpl"
  obtain src err calls where src: "getTemplateContent W p d = ((src, err), calls)"
    by (metis prod.exhaust)
  have calls: "CallExecute t obj' \<notin> set calls" "CallDecode r \<notin> set calls" for t obj' r
    using getTemplateContent_calls [of W p d] src by auto
  show "(\<exists>c. fst (GetConfiguration W p d funcMap obj) = Returns (Some c, None)) \<or>
      (\<exists>e. fst (GetConfiguration W p d funcMap obj) = Returns (None, Some e))"
    using tmpl
    by (simp add: GetConfiguration_def Let_def
        split: prod.splits option.splits sum.splits)
  show "fst (GetConfiguration W p d funcMap obj) = Returns (Some c, None) \<longleftrightarrow>
      (\<exists>content tree rendered.
         fst (getTemplateContent W p d) = (content, None) \<and>
         Parse W tmpl content = Inr tree \<and>
         Execute W tmpl tree obj = (rendered, None) \<and>
         Decode W rendered (newConfiguration W) = (c, None))"
    using tmpl
    by (auto simp: GetConfiguration_def Let_def split: prod.splits option.splits sum.splits)
  show "GetConfiguration W p d funcMap obj =
      (Returns (None, Some e), snd (getTemplateContent W p d))"
    if "fst (getTemplateContent W p d) = (content, Some e)"
    using that src GetConfiguration_source_error [OF tmpl, of d src e calls obj] by simp
  show "fst (GetConfiguration W p d funcMap obj) = Returns (None, Some e)"
    "\<forall>t obj'. CallExecute t obj' \<notin> set (snd (GetConfiguration W p d funcMap obj))"
    "\<forall>r. CallDecode r \<notin> set (snd (GetConfiguration W p d funcMap obj))"
    if "fst (getTemplateContent W p d) = (content, None) \<and> Parse W tmpl content = Inl e"
    using that src calls GetConfiguration_parse_error [OF tmpl, of d content calls e obj]
    by simp_all
  show "fst (GetConfiguration W p d funcMap obj) = Returns (None, Some e)"
    "\<forall>r. CallDecode r \<notin> set (snd (GetConfiguration W p d funcMap obj))"
    if "fst (getTemplateContent W p d) = (content, None) \<and> Parse W tmpl content = Inr tree \<and>
        Execute W tmpl tree obj = (written, Some e)"
    using that src calls
      GetConfiguration_execute_error [OF tmpl, of d content calls tree obj written e]
    by simp_all
  show "fst (GetConfiguration W p d funcMap obj) = Returns (None, Some e)"
    if "fst (getTemplateContent W p d) = (content, None) \<and> Parse W tmpl content = Inr tree \<and>
        Execute W tmpl tree obj = (rendered, None) \<and>
        Decode W rendered (newConfiguration W) = (partly, Some e)"
    using that src
      GetConfiguration_decode [OF tmpl, of d content calls tree obj rendered partly "Some e"]
    by simp
  show "GetConfiguration W p d funcMap obj =
      (Returns (None, Some e), [CallReadFile (Filename p)])"
    if "Filename p \<noteq> [] \<and> ReadFile W (Filename p) = Inl e"
  proof -
    from that have "getTemplateContent W p d = (([], Some e), [CallReadFile (Filename p)])"
      by (simp add: getTemplateContent_def)
    with tmpl show ?thesis by (rule GetConfiguration_source_error)
  qed
qed

lemma example_world_accepts:
  "Funcs (Tables example_world) (installable example_world) (New n)
     (defaultFuncMap example_world [])
   = Some \<lparr>Name = n, funcs = defaultFuncMap example_world []\<rparr>"
proof -
  have "goodName no_tables k \<and> goodFunc (\<lambda>f. f < 100) fn"
    if "defaultFuncMap example_world [] k = Some fn" for k fn
    using that
    by (auto simp: defaultFuncMap_def example_world_def goodName_def str_def IsLetter_def
        IsDigit_def MaxLatin1_def latin1_letter_def split: if_splits)
  then show ?thesis
    by (simp add: Funcs_New_Some_iff example_world_def)
qed

theorem GetConfiguration_all_or_nothing_witness:
  "fst (GetConfiguration example_world (example_provider [] []) (str ''a = '') [] (str ''1''))
     = Returns (Some (str ''a = 1''), None) \<and>
   GetConfiguration example_world (example_provider (str ''gone.tmpl'') []) (str ''a = '') []
       (str ''1'')
     = (Returns (None, Some ''no such file''), [CallReadFile (str ''gone.tmpl'')]) \<and>
   fst (GetConfiguration example_world (example_provider [] []) (str ''{{'') [] (str ''1''))
     = Returns (None, Some ''parse error'') \<and>
   fst (GetConfiguration example_world (example_provider [] []) (str ''a = '') [] (str ''bad''))
     = Returns (None, Some ''execute error'') \<and>
   fst (GetConfiguration example_world (example_provider [] []) (str ''x'') [] (str ''=''))
     = Returns (None, Some ''decode error'') \<and>
   GetConfiguration example_world (example_provider [] []) (str ''a = '')
       [(str ''my-func'', Other 3)] (str ''1'')
     = (Panics, [])"
proof (intro conjI)
  let ?W = "example_world"
  let ?p = "example_provider [] []"
  let ?q = "example_provider (str ''gone.tmpl'') []"
  let ?tmpl = "\<lparr>Name = Filename ?p, funcs = defaultFuncMap ?W []\<rparr>"
  let ?tmplq = "\<lparr>Name = Filename ?q, funcs = defaultFuncMap ?W []\<rparr>"
  have accepted: "Funcs (Tables ?W) (installable ?W) (New (Filename ?p)) (defaultFuncMap ?W [])
      = Some ?tmpl"
    "Funcs (Tables ?W) (installable ?W) (New (Filename ?q)) (defaultFuncMap ?W [])
      = Some ?tmplq"
    by (rule example_world_accepts)+
  have literal: "fst (getTemplateContent ?W ?p (str ''a = '')) = (str ''a = '', None)"
    "fst (getTemplateContent ?W ?p (str ''{{'')) = (str ''{{'', None)"
    "fst (getTemplateContent ?W ?p (str ''x'')) = (str ''x'', None)"
    by (simp_all add: getTemplateContent_def example_provider_def HasSuffix_def str_def)
  have parse: "Parse ?W ?tmpl (str ''a = '') = Inr (str ''a = '')"
    "Parse ?W ?tmpl (str ''{{'') = Inl ''parse error''"
    "Parse ?W ?tmpl (str ''x'') = Inr (str ''x'')"
    by (simp_all add: example_world_def str_def)
  have execute: "Execute ?W ?tmpl (str ''a = '') (str ''1'') = (str ''a = 1'', None)"
    "Execute ?W ?tmpl (str ''a = '') (str ''bad'') = (str ''a'', Some ''execute error'')"
    "Execute ?W ?tmpl (str ''x'') (str ''='') = (str ''x='', None)"
    by (simp_all add: example_world_def str_def)
  have decode: "Decode ?W (str ''a = 1'') (newConfiguration ?W) = (str ''a = 1'', None)"
    "Decode ?W (str ''x='') (newConfiguration ?W) = ([], Some ''decode error'')"
    by (simp_all add: example_world_def str_def)
  have unreadable: "Filename ?q \<noteq> []" "ReadFile ?W (Filename ?q) = Inl ''no such file''"
    by (simp_all add: example_world_def example_provider_def str_def)
  have rejected: "\<exists>k fn. defaultFuncMap ?W [(str ''my-func'', Other 3)] k = Some fn \<and>
      \<not> (goodName (Tables ?W) k \<and> goodFunc (installable ?W) fn)"
  proof (intro exI conjI)
    show "defaultFuncMap ?W [(str ''my-func'', Other 3)] (str ''my-func'') = Some (Other 3)"
      by (simp add: defaultFuncMap_def)
    show "\<not> (goodName (Tables ?W) (str ''my-func'') \<and> goodFunc (installable ?W) (Other 3))"
      by (simp add: example_world_def no_tables_def goodName_def str_def IsLetter_def
          IsDigit_def MaxLatin1_def latin1_letter_def)
  qed
  show "fst (GetConfiguration ?W ?p (str ''a = '') [] (str ''1''))
      = Returns (Some (str ''a = 1''), None)"
    using GetConfiguration_all_or_nothing
      [of ?W ?p "[]" "str ''a = ''" "str ''1''" ?tmpl "str ''a = 1''"]
      accepted(1) literal(1) parse(1) execute(1) decode(1)
    by blast
  show "GetConfiguration ?W ?q (str ''a = '') [] (str ''1'')
     = (Returns (None, Some ''no such file''), [CallReadFile (str ''gone.tmpl'')])"
    using GetConfiguration_all_or_nothing
      [of ?W ?q "[]" "str ''a = ''" "str ''1''" ?tmplq _ _ "''no such file''"]
      accepted(2) unreadable
    by (simp add: example_provider_def)
  show "fst (GetConfiguration ?W ?p (str ''{{'') [] (str ''1'')) = Returns (None, Some ''parse error'')"
    using GetConfiguration_all_or_nothing
      [of ?W ?p "[]" "str ''{{''" "str ''1''" ?tmpl _ "str ''{{''" "''parse error''"]
      accepted(1) literal(2) parse(2)
    by blast
  show "fst (GetConfiguration ?W ?p (str ''a = '') [] (str ''bad''))
      = Returns (None, Some ''execute error'')"
    using GetConfiguration_all_or_nothing
      [of ?W ?p "[]" "str ''a = ''" "str ''bad''" ?tmpl _ "str ''a = ''" "''execute error''"
        "str ''a = ''" "str ''a''"]
      accepted(1) literal(1) parse(1) execute(2)
    by blast
  show "fst (GetConfiguration ?W ?p (str ''x'') [] (str ''=''))
      = Returns (None, Some ''decode error'')"
    using GetConfiguration_all_or_nothing
      [of ?W ?p "[]" "str ''x''" "str ''=''" ?tmpl _ "str ''x''" "''decode error''"
        "str ''x''" _ "str ''x=''" "[]"]
      accepted(1) literal(3) parse(3) execute(3) decode(2)
    by blast
  show "GetConfiguration ?W ?p (str ''a = '') [(str ''my-func'', Other 3)] (str ''1'')
      = (Panics, [])"
    using GetConfiguration_all_or_nothing
      [of ?W ?p "[(str ''my-func'', Other 3)]" "str ''a = ''" "str ''1''"]
      rejected
    by blast
qed

text \<open>
  C2 as worded, for every input, fails on a function map that \<^verbatim>\<open>Funcs\<close> rejects:
  with the name \<^verbatim>\<open>bad-name\<close> in the caller's map \<^verbatim>\<open>GetConfiguration\<close> panics at
  \<^verbatim>\<open>Funcs\<close>, before the file is read, and returns neither a configuration nor the
  read error of the unreadable file. The hyphen is below \<^verbatim>\<open>MaxLatin1\<close>, so the name
  is no identifier whatever the range tables; the same holds for a value that is no
  function, whatever its name.
\<close>

theorem GetConfiguration_rejected_funcMap_counterexample:
  "ReadFile example_world (Filename (example_provider (str ''gone.tmpl'') []))
     = Inl ''no such file'' \<and>
   GetConfiguration example_world (example_provider (str ''gone.tmpl'') []) (str ''a = '')
       [(str ''bad-name'', Other 9)] (str ''1'')
     = (Panics, []) \<and>
   fst (GetConfiguration example_world (example_provider (str ''gone.tmpl'') []) (str ''a = '')
       [(str ''bad-name'', Other 9)] (str ''1''))
     \<noteq> Returns (None, Some ''no such file'') \<and>
   GetConfiguration example_world (example_provider (str ''gone.tmpl'') []) (str ''a = '')
       [(str ''f'', Other 200)] (str ''1'')
     = (Panics, [])"
proof -
  let ?W = "example_world"
  let ?q = "example_provider (str ''gone.tmpl'') []"
  have read: "ReadFile ?W (Filename ?q) = Inl ''no such file''"
    by (simp add: example_world_def example_provider_def str_def)
  have "defaultFuncMap ?W [(str ''bad-name'', Other 9)] (str ''bad-name'') = Some (Other 9)"
    by (simp add: defaultFuncMap_def)
  moreover have "\<not> goodName (Tables ?W) (str ''bad-name'')"
    by (simp add: example_world_def no_tables_def goodName_def str_def IsLetter_def
        IsDigit_def MaxLatin1_def latin1_letter_def)
  ultimately have "Funcs (Tables ?W) (installable ?W) (New (Filename ?q))
      (defaultFuncMap ?W [(str ''bad-name'', Other 9)]) = None"
    unfolding Funcs_None_iff by blast
  then have name: "GetConfiguration ?W ?q (str ''a = '') [(str ''bad-name'', Other 9)] (str ''1'')
      = (Panics, [])"
    by (rule GetConfiguration_panics)
  have "defaultFuncMap ?W [(str ''f'', Other 200)] (str ''f'') = Some (Other 200)"
    by (simp add: defaultFuncMap_def)
  moreover have "\<not> goodFunc (installable ?W) (Other 200)"
    by (simp add: example_world_def)
  ultimately have "Funcs (Tables ?W) (installable ?W) (New (Filename ?q))
      (defaultFuncMap ?W [(str ''f'', Other 200)]) = None"
    unfolding Funcs_None_iff by blast
  then have val: "GetConfiguration ?W ?q (str ''a = '') [(str ''f'', Other 200)] (str ''1'')
      = (Panics, [])"
    by (rule GetConfiguration_panics)
  from read name val show ?thesis by simp
qed

section \<open>The function map\<close>

lemma range_funcMap_lookup:
  "distinct (map fst funcMap) \<Longrightarrow>
   range_funcMap m funcMap k = (case map_of funcMap k of Some v \<Rightarrow> Some v | None \<Rightarrow> m k)"
proof (induction funcMap arbitrary: m)
  case Nil
  show ?case by simp
next
  case (Cons entry rest)
  obtain funcID funcElement where entry: "entry = (funcID, funcElement)"
    by (cases entry)
  from Cons.prems entry have none: "map_of rest funcID = None"
    and dist: "distinct (map fst rest)"
    by (simp_all add: map_of_eq_None_iff)
  have IH: "range_funcMap (m(funcID \<mapsto> funcElement)) rest k =
      (case map_of rest k of Some v \<Rightarrow> Some v | None \<Rightarrow> (m(funcID \<mapsto> funcElement)) k)"
    using dist by (rule Cons.IH)
  show ?case
  proof (cases "k = funcID")
    case True
    with IH none entry show ?thesis by simp
  next
    case False
    with IH entry show ?thesis by (simp split: option.splits)
  qed
qed

lemma range_funcMap_map_add:
  "distinct (map fst funcMap) \<Longrightarrow> range_funcMap m funcMap = m ++ map_of funcMap"
  by (rule ext) (simp add: range_funcMap_lookup map_add_def)

lemma funcs_Funcs_New: "Funcs U ok (New n) m = Some t \<Longrightarrow> funcs t = m"
  by (auto simp: Funcs_def addValueFuncs_def New_def split: if_splits)

lemma GetConfiguration_calls_funcs:
  "CallParse t text \<in> set (snd (GetConfiguration W p d funcMap obj)) \<or>
   CallExecute t obj' \<in> set (snd (GetConfiguration W p d funcMap obj))
   \<Longrightarrow> funcs t = defaultFuncMap W funcMap"
  by (auto simp: GetConfiguration_def getTemplateContent_def Let_def
      split: prod.splits option.splits sum.splits if_splits dest: funcs_Funcs_New)

text \<open>
  C4. The function map of \<^verbatim>\<open>GetConfiguration\<close> is the sprig map, then the three
  functions \<^verbatim>\<open>tolower\<close>, \<^verbatim>\<open>normalize\<close> and \<^verbatim>\<open>split\<close>, then the caller's
  functions, a later entry replacing an earlier one of the same name. So a function of
  the caller is bound under its name whatever was there before, and this map is the
  function map of the template that is parsed and executed.
\<close>

theorem defaultFuncMap_precedence:
  "distinct (map fst funcMap) \<Longrightarrow>
   defaultFuncMap W funcMap =
     (TxtFuncMap W ++
      [str ''tolower'' \<mapsto> strings_ToLower, str ''normalize'' \<mapsto> func_Normalize,
       str ''split'' \<mapsto> func_split]) ++ map_of funcMap \<and>
   (\<forall>n f. (n, f) \<in> set funcMap \<longrightarrow> defaultFuncMap W funcMap n = Some f) \<and>
   (\<forall>n. n \<notin> fst ` set funcMap \<longrightarrow>
      defaultFuncMap W funcMap n =
        (if n = str ''split'' then Some func_split
         else if n = str ''normalize'' then Some func_Normalize
         else if n = str ''tolower'' then Some strings_ToLower
         else TxtFuncMap W n)) \<and>
   (\<forall>t text. CallParse t text \<in> set (snd (GetConfiguration W p d funcMap obj)) \<longrightarrow>
      funcs t = defaultFuncMap W funcMap) \<and>
   (\<forall>t obj'. CallExecute t obj' \<in> set (snd (GetConfiguration W p d funcMap obj)) \<longrightarrow>
      funcs t = defaultFuncMap W funcMap)"
proof (intro conjI allI impI)
  assume d: "distinct (map fst funcMap)"
  then show "defaultFuncMap W funcMap =
     (TxtFuncMap W ++
      [str ''tolower'' \<mapsto> strings_ToLower, str ''normalize'' \<mapsto> func_Normalize,
       str ''split'' \<mapsto> func_split]) ++ map_of funcMap"
    by (simp add: defaultFuncMap_def range_funcMap_map_add)
next
  fix n f
  assume "distinct (map fst funcMap)" and "(n, f) \<in> set funcMap"
  then show "defaultFuncMap W funcMap n = Some f"
    by (simp add: defaultFuncMap_def range_funcMap_lookup)
next
  fix n
  assume "distinct (map fst funcMap)" and "n \<notin> fst ` set funcMap"
  then have "map_of funcMap n = None" by (simp add: map_of_eq_None_iff)
  moreover assume "distinct (map fst funcMap)"
  ultimately show "defaultFuncMap W funcMap n =
        (if n = str ''split'' then Some func_split
         else if n = str ''normalize'' then Some func_Normalize
         else if n = str ''tolower'' then Some strings_ToLower
         else TxtFuncMap W n)"
    by (simp add: defaultFuncMap_def range_funcMap_lookup)
next
  fix t content
  assume "CallParse t content \<in> set (snd (GetConfiguration W p d funcMap obj))"
  then show "funcs t = defaultFuncMap W funcMap"
    using GetConfiguration_calls_funcs [of t content W p d funcMap obj] by blast
next
  fix t obj'
  assume "CallExecute t obj' \<in> set (snd (GetConfiguration W p d funcMap obj))"
  then show "funcs t = defaultFuncMap W funcMap"
    using GetConfiguration_calls_funcs [of t _ W p d funcMap obj obj'] by blast
qed

theorem defaultFuncMap_precedence_witness:
  "defaultFuncMap example_world
     [(str ''normalize'', Other 7), (str ''mine'', Other 8)] (str ''normalize'') = Some (Other 7) \<and>
   defaultFuncMap example_world
     [(str ''normalize'', Other 7), (str ''mine'', Other 8)] (str ''mine'') = Some (Other 8) \<and>
   defaultFuncMap example_world
     [(str ''normalize'', Other 7), (str ''mine'', Other 8)] (str ''split'') = Some func_split \<and>
   defaultFuncMap example_world
     [(str ''normalize'', Other 7), (str ''mine'', Other 8)] (str ''tolower'')
       = Some strings_ToLower \<and>
   defaultFuncMap example_world
     [(str ''normalize'', Other 7), (str ''mine'', Other 8)] (str ''lower'') = Some (Other 0) \<and>
   (\<exists>t content obj.
      CallParse t content \<in>
        set (snd (GetConfiguration example_world (example_provider [] []) (str ''a = '')
                   [(str ''normalize'', Other 7), (str ''mine'', Other 8)] (str ''1''))) \<and>
      CallExecute t obj \<in>
        set (snd (GetConfiguration example_world (example_provider [] []) (str ''a = '')
                   [(str ''normalize'', Other 7), (str ''mine'', Other 8)] (str ''1''))) \<and>
      funcs t (str ''normalize'') = Some (Other 7))"
proof -
  let ?fm = "[(str ''normalize'', Other (7::nat)), (str ''mine'', Other 8)]"
  let ?W = "example_world"
  let ?p = "example_provider [] []"
  let ?tmpl = "\<lparr>Name = Filename ?p, funcs = defaultFuncMap ?W ?fm\<rparr>"
  let ?run = "GetConfiguration ?W ?p (str ''a = '') ?fm (str ''1'')"
  have d: "distinct (map fst ?fm)" by (simp add: str_def)
  note inst = defaultFuncMap_precedence [OF d, of ?W ?p "str ''a = ''" "str ''1''"]
  from inst have bound: "\<forall>n f. (n, f) \<in> set ?fm \<longrightarrow> defaultFuncMap ?W ?fm n = Some f"
    by blast
  have caller: "defaultFuncMap ?W ?fm (str ''normalize'') = Some (Other 7)"
    "defaultFuncMap ?W ?fm (str ''mine'') = Some (Other 8)"
    using bound by simp_all
  have absent: "str ''split'' \<notin> fst ` set ?fm" "str ''tolower'' \<notin> fst ` set ?fm"
    "str ''lower'' \<notin> fst ` set ?fm"
    by (simp_all add: str_def)
  from inst have rest: "\<forall>n. n \<notin> fst ` set ?fm \<longrightarrow>
      defaultFuncMap ?W ?fm n =
        (if n = str ''split'' then Some func_split
         else if n = str ''normalize'' then Some func_Normalize
         else if n = str ''tolower'' then Some strings_ToLower
         else TxtFuncMap ?W n)"
    by blast
  from rest absent(1) have s: "defaultFuncMap ?W ?fm (str ''split'') = Some func_split"
    by simp
  from rest absent(2) have l: "defaultFuncMap ?W ?fm (str ''tolower'') = Some strings_ToLower"
    by (simp add: str_def)
  from rest absent(3) have sprig: "defaultFuncMap ?W ?fm (str ''lower'') = Some (Other 0)"
    by (simp add: str_def example_world_def)
  have "goodName no_tables k \<and> goodFunc (\<lambda>f. f < 100) fn"
    if "defaultFuncMap ?W ?fm k = Some fn" for k fn
    using that
    by (auto simp: defaultFuncMap_def example_world_def goodName_def str_def IsLetter_def
        IsDigit_def MaxLatin1_def latin1_letter_def split: if_splits)
  then have "Funcs (Tables ?W) (installable ?W) (New (Filename ?p)) (defaultFuncMap ?W ?fm)
      = Some ?tmpl"
    by (simp add: Funcs_New_Some_iff example_world_def)
  moreover have "getTemplateContent ?W ?p (str ''a = '') = ((str ''a = '', None), [])"
    by (simp add: getTemplateContent_def example_provider_def HasSuffix_def str_def)
  moreover have "Parse ?W ?tmpl (str ''a = '') = Inr (str ''a = '')"
    by (simp add: example_world_def str_def)
  moreover have "Execute ?W ?tmpl (str ''a = '') (str ''1'') = (str ''a = 1'', None)"
    by (simp add: example_world_def str_def)
  moreover have "Decode ?W (str ''a = 1'') (newConfiguration ?W) = (str ''a = 1'', None)"
    by (simp add: example_world_def str_def)
  ultimately have "snd ?run =
      [] @ [CallParse ?tmpl (str ''a = ''), CallExecute ?tmpl (str ''1'')] @
      (if DebugLogGeneratedTemplate ?p then [CallDebugf (str ''a = '') (str ''a = 1'')] else []) @
      [CallDecode (str ''a = 1'')]"
    by (simp only: GetConfiguration_decode snd_conv)
  then have called: "CallParse ?tmpl (str ''a = '') \<in> set (snd ?run)"
    "CallExecute ?tmpl (str ''1'') \<in> set (snd ?run)"
    by simp_all
  from inst called(1) have "funcs ?tmpl = defaultFuncMap ?W ?fm" by blast
  with caller(1) have "funcs ?tmpl (str ''normalize'') = Some (Other 7)" by simp
  with called have "\<exists>t content obj. CallParse t content \<in> set (snd ?run) \<and>
      CallExecute t obj \<in> set (snd ?run) \<and> funcs t (str ''normalize'') = Some (Other 7)"
    by blast
  with caller s l sprig show ?thesis by simp
qed

end
